theory Spec2Isabelle
  imports Main "HOL-Library.Sublist" "HOL-Library.Multiset"
begin

section \<open>Data model of auto-merge-successful-pr.py\<close>

text \<open>
  The module-level configuration (lines 12-16), read once from the process environment.
  The model takes it as a value, so every theorem holds for every configuration.
\<close>

record config =
  APPROVE_MSG :: string
  BOT_AUTHORS :: "string list"
  DRY_RUN :: bool
  LABELS :: "string list"
  MIN_PASSING_CHECKS :: int

text \<open>
  One element of the JSON array printed by \<^verbatim>\<open>gh pr checks N --json bucket,name\<close>: the
  dictionary \<^verbatim>\<open>check_obj\<close> of \<^verbatim>\<open>from_list\<close>, before any conversion.
\<close>

record check_obj =
  dict_name :: string
  dict_bucket :: string

text \<open>The dataclass \<^verbatim>\<open>PullRequestCheck\<close> (lines 19-22).\<close>

record PullRequestCheck =
  name :: string
  bucket :: string

text \<open>
  The dataclass \<^verbatim>\<open>PullRequestChecks\<close> (lines 25-31). The annotation says
  \<^verbatim>\<open>list[PullRequestCheck]\<close>, but \<^verbatim>\<open>from_list\<close> appends \<^verbatim>\<open>check_obj\<close>, the
  dictionary: the five fields hold dictionaries, and so does the record.
\<close>

record PullRequestChecks =
  passed :: "check_obj list"
  failed :: "check_obj list"
  pending :: "check_obj list"
  skipping :: "check_obj list"
  cancel :: "check_obj list"

text \<open>The dataclass \<^verbatim>\<open>PullRequestAuthor\<close> (lines 51-56); \<^verbatim>\<open>id\<close> and \<^verbatim>\<open>name\<close> are optional.\<close>

record PullRequestAuthor =
  is_bot :: bool
  login :: string
  author_id :: "string option"
  author_name :: "string option"

text \<open>A label object of the listing; the source reads only its \<^verbatim>\<open>"name"\<close> (line 111).\<close>

record label_obj =
  label_name :: string

text \<open>The dataclass \<^verbatim>\<open>PullRequest\<close> (lines 59-67).\<close>

record PullRequest =
  number :: int
  author :: PullRequestAuthor
  title :: string
  labels :: "label_obj list"
  mergeable :: string
  baseRefName :: string
  checks :: "PullRequestChecks option"

text \<open>
  One element of the array printed by \<^verbatim>\<open>gh pr list --json number,labels,title\<close>
  (\<^verbatim>\<open>pr_dict\<close>, line 91), and the object printed by
  \<^verbatim>\<open>gh pr view N --json mergeable,baseRefName,author\<close> once line 96 has replaced its
  author by a \<^verbatim>\<open>PullRequestAuthor\<close>.
\<close>

record pr_dict =
  listed_number :: int
  listed_labels :: "label_obj list"
  listed_title :: string

record view_dict =
  view_mergeable :: string
  view_baseRefName :: string
  view_author :: PullRequestAuthor

section \<open>Errors, the external world, and the trace of effects\<close>

text \<open>
  \<^verbatim>\<open>Exception msg\<close> is the exception raised by \<^verbatim>\<open>sh\<close> at line 83, with its message.
  \<^verbatim>\<open>Raised cls\<close> is any exception raised inside library code (the class name is kept):
  a JSON document that does not decode or lacks a field the source reads, a template
  \<^verbatim>\<open>str.format\<close> rejects, a command that cannot be started.
  No function of the source catches an exception, so each one ends the run.
\<close>

datatype error = Exception string | Raised string

text \<open>The \<^verbatim>\<open>CompletedProcess\<close> of \<^verbatim>\<open>subprocess.run\<close>, as far as line 82-84 read it.\<close>

record completed =
  returncode :: int
  stdout :: string
  stderr :: string

text \<open>
  What the source calls and does not define. \<open>subprocess_run h cmd\<close> is
  \<^verbatim>\<open>subprocess.run(shlex.split(cmd), stdout=PIPE, stderr=PIPE, text=True)\<close> after the commands
  \<open>h\<close> have been run, in that order: the hosting service has a state, and the answer to a
  command may depend on every command before it; \<open>Inl\<close> is a command that could not be
  split or started. The three \<open>loads\<close> functions are \<^verbatim>\<open>json.loads\<close> read at the type
  the caller goes on to use: the objects \<^verbatim>\<open>gh\<close> prints have the fields its \<^verbatim>\<open>--json\<close>
  option asked for, and the records above have exactly these fields. A document of any
  other shape raises in the source (in \<^verbatim>\<open>json.loads\<close>, or where a subscript or a
  dataclass constructor meets the wrong keys) and ends the run; here it is \<open>Inl\<close>, at the
  point of decoding. \<open>str_format t n\<close> is \<^verbatim>\<open>t.format(n)\<close>, which raises on a template it
  cannot fill; \<open>repr_list\<close> is \<^verbatim>\<open>repr\<close> of a list of strings.
\<close>

record lib =
  subprocess_run :: "string list \<Rightarrow> string \<Rightarrow> error + completed"
  loads_pr_list :: "string \<Rightarrow> error + pr_dict list"
  loads_pr_view :: "string \<Rightarrow> error + view_dict"
  loads_checks :: "string \<Rightarrow> error + check_obj list"
  str_format :: "string \<Rightarrow> int \<Rightarrow> error + string"
  repr_list :: "string list \<Rightarrow> string"

text \<open>
  The four generators of the pipeline, and the effects of a run in the order they happen:
  a line printed, a command handed to \<^verbatim>\<open>subprocess.run\<close>, a value yielded by a generator
  to its consumer. \<open>executed\<close> is the list of commands run so far, \<open>yields g\<close> the values
  the generator \<open>g\<close> has yielded so far.
\<close>

datatype generator = Get_pull_requests | Match_labels_or_bot | Mergeable_prs | Check_prs_ready

datatype event = Print string | Run string | Yield generator PullRequest

type_synonym trace = "event list"

fun executed :: "trace \<Rightarrow> string list" where
  "executed [] = []"
| "executed (Run cmd # tr) = cmd # executed tr"
| "executed (e # tr) = executed tr"

fun yields :: "generator \<Rightarrow> trace \<Rightarrow> PullRequest list" where
  "yields g [] = []"
| "yields g (Yield g' pr # tr) = (if g' = g then pr # yields g tr else yields g tr)"
| "yields g (e # tr) = yields g tr"

section \<open>Text helpers\<close>

text \<open>
  \<^verbatim>\<open>tab\<close> (lines 70-72): three spaces, the box-drawing characters U+2514, U+2500, U+2500
  (in UTF-8), a space, and the text.
\<close>

definition tab :: "string \<Rightarrow> string" where
  "tab text = ''   '' @ [CHR 0xE2, CHR 0x94, CHR 0x94, CHR 0xE2, CHR 0x94, CHR 0x80,
                         CHR 0xE2, CHR 0x94, CHR 0x80] @ '' '' @ text"

text \<open>\<^verbatim>\<open>str\<close> of an integer, as the f-strings and \<^verbatim>\<open>format\<close> print a number.\<close>

function str_nat :: "nat \<Rightarrow> string" where
  "str_nat n = (if n < 10 then [''0123456789'' ! n]
                else str_nat (n div 10) @ [''0123456789'' ! (n mod 10)])"
  by pat_completeness auto
termination
  by (relation "measure id") auto

declare str_nat.simps [simp del]

definition str_int :: "int \<Rightarrow> string" where
  "str_int i = (if i < 0 then ''-'' @ str_nat (nat (- i)) else str_nat (nat i))"

text \<open>\<^verbatim>\<open>"{:<5}".format(n)\<close>: the number, padded with spaces on the right to five characters.\<close>

definition ljust5 :: "string \<Rightarrow> string" where
  "ljust5 s = s @ replicate (5 - length s) CHR '' ''"

text \<open>\<^verbatim>\<open>sep.join(xs)\<close>.\<close>

fun join :: "string \<Rightarrow> string list \<Rightarrow> string" where
  "join sep [] = []"
| "join sep [x] = x"
| "join sep (x # y # ys) = x @ sep @ join sep (y # ys)"

text \<open>
  \<^verbatim>\<open>str.strip()\<close>: the ASCII white space (tab, line feed, vertical tab, form feed, carriage
  return, the four separators 28-31, space) is removed at both ends.
\<close>

definition isspace :: "char \<Rightarrow> bool" where
  "isspace c = (c \<in> set [CHR 0x09, CHR 0x0A, CHR 0x0B, CHR 0x0C, CHR 0x0D,
                          CHR 0x1C, CHR 0x1D, CHR 0x1E, CHR 0x1F, CHR '' ''])"

definition strip :: "string \<Rightarrow> string" where
  "strip s = rev (dropWhile isspace (rev (dropWhile isspace s)))"

section \<open>The command runner\<close>

text \<open>
  \<^verbatim>\<open>sh\<close> (lines 75-84). In dry mode the command is printed and the empty string returned.
  Otherwise the command is run; a non-zero return code raises the exception of line 83,
  whose message holds the command and the captured standard error.
\<close>

definition sh_error :: "string \<Rightarrow> completed \<Rightarrow> error" where
  "sh_error cmd result =
     Exception (''Error running command: '' @ cmd @ [CHR 0x0A] @ ''Error: '' @ stderr result)"

definition sh :: "lib \<Rightarrow> string \<Rightarrow> bool \<Rightarrow> trace \<Rightarrow> (error + string) \<times> trace" where
  "sh L cmd dry_run tr =
     (if dry_run then (Inr [], tr @ [Print (tab (''Would run: '' @ cmd))])
      else (case subprocess_run L (executed tr) cmd of
              Inl e \<Rightarrow> (Inl e, tr @ [Run cmd])
            | Inr result \<Rightarrow>
                if returncode result \<noteq> 0 then (Inl (sh_error cmd result), tr @ [Run cmd])
                else (Inr (strip (stdout result)), tr @ [Run cmd])))"

section \<open>The check classifier\<close>

text \<open>\<^verbatim>\<open>PullRequestCheck(**check_obj)\<close> (line 37).\<close>

definition PullRequestCheck_init :: "check_obj \<Rightarrow> PullRequestCheck" where
  "PullRequestCheck_init check_obj = \<lparr>name = dict_name check_obj, bucket = dict_bucket check_obj\<rparr>"

text \<open>
  The loop of \<^verbatim>\<open>from_list\<close> (lines 36-47) over the five lists of line 35, and
  \<^verbatim>\<open>from_list\<close> itself (lines 33-48). A check whose bucket is none of the five tags
  falls through the \<^verbatim>\<open>elif\<close> chain and is appended nowhere.
\<close>

fun from_list_loop :: "check_obj list \<Rightarrow> PullRequestChecks \<Rightarrow> PullRequestChecks" where
  "from_list_loop [] acc = acc"
| "from_list_loop (check_obj # rest) acc =
     (let check = PullRequestCheck_init check_obj in
      if bucket check = ''pass'' then
        from_list_loop rest (acc\<lparr>passed := passed acc @ [check_obj]\<rparr>)
      else if bucket check = ''fail'' then
        from_list_loop rest (acc\<lparr>failed := failed acc @ [check_obj]\<rparr>)
      else if bucket check = ''pending'' then
        from_list_loop rest (acc\<lparr>pending := pending acc @ [check_obj]\<rparr>)
      else if bucket check = ''skipping'' then
        from_list_loop rest (acc\<lparr>skipping := skipping acc @ [check_obj]\<rparr>)
      else if bucket check = ''cancel'' then
        from_list_loop rest (acc\<lparr>cancel := cancel acc @ [check_obj]\<rparr>)
      else from_list_loop rest acc)"

definition from_list :: "check_obj list \<Rightarrow> PullRequestChecks" where
  "from_list checks_in =
     from_list_loop checks_in \<lparr>passed = [], failed = [], pending = [], skipping = [], cancel = []\<rparr>"

text \<open>The five bucket tags the classifier knows.\<close>

definition recognized :: "check_obj \<Rightarrow> bool" where
  "recognized c = (dict_bucket c \<in> set [''pass'', ''fail'', ''pending'', ''skipping'', ''cancel''])"

section \<open>The pull-request repository client\<close>

text \<open>The three commands that only read the hosting service, as lines 89, 93 and 133 build them.\<close>

definition list_cmd :: string where
  "list_cmd = ''gh pr list --state open --json number,labels,title''"

definition view_cmd :: "int \<Rightarrow> string" where
  "view_cmd n = ''gh pr view '' @ str_int n @ '' --json mergeable,baseRefName,author''"

definition checks_cmd :: "int \<Rightarrow> string" where
  "checks_cmd n = ''gh pr checks '' @ str_int n @ '' --json bucket,name''"

text \<open>
  A Python generator runs only when its consumer asks for the next value, so the four
  generators of \<^verbatim>\<open>process_pull_requests\<close> run interleaved: one listed pull request is
  viewed, filtered, checked and merged or rebased before the next one is viewed. Each
  generator is modelled by what it does before its loop (\<open>_begin\<close>) and by one pass of its
  loop body on one element (\<open>_next\<close>), which yields that element or drops it.

  \<^verbatim>\<open>get_pull_requests\<close> (lines 87-100). Before the loop: the listing command, decoded and
  sorted by number (\<^verbatim>\<open>sorted\<close> is stable, and so is \<open>sort_key\<close>).
\<close>

definition get_pull_requests_begin :: "lib \<Rightarrow> trace \<Rightarrow> (error + pr_dict list) \<times> trace" where
  "get_pull_requests_begin L tr =
     (case sh L list_cmd False tr of
        (Inl e, t) \<Rightarrow> (Inl e, t)
      | (Inr prs_json, t) \<Rightarrow>
          (case loads_pr_list L prs_json of
             Inl e \<Rightarrow> (Inl e, t)
           | Inr prs \<Rightarrow> (Inr (sort_key listed_number prs), t)))"

text \<open>The line printed at line 99.\<close>

definition pr_line :: "PullRequest \<Rightarrow> string" where
  "pr_line pr = ''PR #'' @ ljust5 (str_int (number pr)) @ '' - '' @ [CHR 0x27] @ title pr @
                [CHR 0x27] @ '' by '' @ login (author pr)"

text \<open>One pass of the loop (lines 92-100): the view command, the merged record, the line, the yield.\<close>

definition get_pull_requests_next :: "lib \<Rightarrow> pr_dict \<Rightarrow> trace \<Rightarrow> (error + PullRequest) \<times> trace" where
  "get_pull_requests_next L d tr =
     (case sh L (view_cmd (listed_number d)) False tr of
        (Inl e, t) \<Rightarrow> (Inl e, t)
      | (Inr view_json, t) \<Rightarrow>
          (case loads_pr_view L view_json of
             Inl e \<Rightarrow> (Inl e, t)
           | Inr view \<Rightarrow>
               (let pr = \<lparr>number = listed_number d, author = view_author view,
                          title = listed_title d, labels = listed_labels d,
                          mergeable = view_mergeable view,
                          baseRefName = view_baseRefName view, checks = None\<rparr>
                in (Inr pr, t @ [Print (pr_line pr), Yield Get_pull_requests pr]))))"

section \<open>The eligibility pipeline\<close>

text \<open>\<^verbatim>\<open>match_labels_or_bot\<close> (lines 103-117): line 105 before the loop, then the loop body.\<close>

definition match_labels_or_bot_begin :: "config \<Rightarrow> lib \<Rightarrow> trace \<Rightarrow> trace" where
  "match_labels_or_bot_begin cfg L tr = tr @ [Print (''LABELS='' @ repr_list L (LABELS cfg))]"

definition match_labels_or_bot_next :: "config \<Rightarrow> PullRequest \<Rightarrow> trace \<Rightarrow> PullRequest option \<times> trace" where
  "match_labels_or_bot_next cfg pr tr =
     (if is_bot (author pr) \<and> login (author pr) \<in> set (BOT_AUTHORS cfg) then
        (Some pr, tr @ [Print (tab ''is bot author''), Yield Match_labels_or_bot pr])
      else
        (let pr_labels = map label_name (labels pr);
             missing = filter (\<lambda>req. \<not> req \<in> set pr_labels) (LABELS cfg)
         in if LABELS cfg = [] \<or> missing = [] then
              (Some pr, tr @ [Print (tab ''matches labels''), Yield Match_labels_or_bot pr])
            else
              (None, tr @ [Print (tab (''skipped not labeled with labels='' @
                                       join '','' missing))])))"

text \<open>\<^verbatim>\<open>mergeable_prs\<close> (lines 120-127), one pass of the loop.\<close>

definition mergeable_prs_next :: "PullRequest \<Rightarrow> trace \<Rightarrow> PullRequest option \<times> trace" where
  "mergeable_prs_next pr tr =
     (if mergeable pr = ''MERGEABLE'' then
        (Some pr, tr @ [Print (tab ''is mergeable''), Yield Mergeable_prs pr])
      else (None, tr @ [Print (tab ''not mergeable'')]))"

text \<open>
  \<^verbatim>\<open>check_prs_ready\<close> (lines 130-147), one pass of the loop: the checks command, the
  classification stored in the pull request, and the two tests.
\<close>

definition check_prs_ready_next ::
  "config \<Rightarrow> lib \<Rightarrow> PullRequest \<Rightarrow> trace \<Rightarrow> (error + PullRequest option) \<times> trace" where
  "check_prs_ready_next cfg L pr tr =
     (case sh L (checks_cmd (number pr)) False tr of
        (Inl e, t) \<Rightarrow> (Inl e, t)
      | (Inr checks_json, t) \<Rightarrow>
          (case loads_checks L checks_json of
             Inl e \<Rightarrow> (Inl e, t)
           | Inr cs \<Rightarrow>
               (let pr' = pr\<lparr>checks := Some (from_list cs)\<rparr>;
                    checks_passed = int (length (passed (from_list cs)));
                    any_unready = (length (failed (from_list cs)) \<noteq> 0 \<or>
                                   length (pending (from_list cs)) \<noteq> 0 \<or>
                                   length (cancel (from_list cs)) \<noteq> 0)
                in if any_unready then
                     (Inr None, t @ [Print (tab ''skipped tests are not passing'')])
                   else if checks_passed < MIN_PASSING_CHECKS cfg then
                     (Inr None, t @ [Print (tab (''skipped passing but with too few checks ('' @
                                                 str_int checks_passed @ '')''))])
                   else (Inr (Some pr'), t @ [Yield Check_prs_ready pr']))))"

section \<open>The merge coordinator\<close>

text \<open>The three commands that change the hosting service, as lines 154, 157 and 166 build them.\<close>

definition review_cmd :: "int \<Rightarrow> string \<Rightarrow> string" where
  "review_cmd n msg = ''gh pr review '' @ str_int n @ '' --comment -b '' @ [CHR 0x22] @ msg @ [CHR 0x22]"

definition merge_cmd :: "int \<Rightarrow> string" where
  "merge_cmd n = ''gh pr merge '' @ str_int n @ '' --admin --squash''"

definition rebase_cmd :: "int \<Rightarrow> string" where
  "rebase_cmd n = ''gh pr update-branch '' @ str_int n @ '' --rebase''"

text \<open>
  \<^verbatim>\<open>approve_and_merge_pr\<close> (lines 150-160). The dictionary \<^verbatim>\<open>merged\<close> is a map from the
  base branch to the pull request; the function returns the updated map.
\<close>

definition approve_and_merge_pr ::
  "config \<Rightarrow> lib \<Rightarrow> PullRequest \<Rightarrow> (string \<rightharpoonup> PullRequest) \<Rightarrow> trace
     \<Rightarrow> (error + (string \<rightharpoonup> PullRequest)) \<times> trace" where
  "approve_and_merge_pr cfg L pr merged tr =
     (let t1 = tr @ [Print (tab ''is ready to merging'')] in
      case str_format L (APPROVE_MSG cfg) (number pr) of
        Inl e \<Rightarrow> (Inl e, t1)
      | Inr msg \<Rightarrow>
          (case sh L (review_cmd (number pr) msg) (DRY_RUN cfg) t1 of
             (Inl e, t2) \<Rightarrow> (Inl e, t2)
           | (Inr _, t2) \<Rightarrow>
               (case sh L (merge_cmd (number pr)) (DRY_RUN cfg) t2 of
                  (Inl e, t3) \<Rightarrow> (Inl e, t3)
                | (Inr _, t3) \<Rightarrow>
                    (Inr (merged(baseRefName pr \<mapsto> pr)),
                     if \<not> DRY_RUN cfg
                     then t3 @ [Print (tab (''merged to '' @ baseRefName pr))] else t3))))"

text \<open>\<^verbatim>\<open>rebase_pr\<close> (lines 163-166).\<close>

definition rebase_pr :: "config \<Rightarrow> lib \<Rightarrow> PullRequest \<Rightarrow> trace \<Rightarrow> (error + unit) \<times> trace" where
  "rebase_pr cfg L pr tr =
     (case sh L (rebase_cmd (number pr)) (DRY_RUN cfg)
                (tr @ [Print (tab (''needs to be rebased from '' @ baseRefName pr))]) of
        (Inl e, t) \<Rightarrow> (Inl e, t)
      | (Inr _, t) \<Rightarrow> (Inr (), t))"

text \<open>The body of the loop of \<^verbatim>\<open>process_pull_requests\<close> (lines 179-182).\<close>

definition merge_or_rebase ::
  "config \<Rightarrow> lib \<Rightarrow> PullRequest \<Rightarrow> (string \<rightharpoonup> PullRequest) \<Rightarrow> trace
     \<Rightarrow> (error + (string \<rightharpoonup> PullRequest)) \<times> trace" where
  "merge_or_rebase cfg L pr merged tr =
     (if merged (baseRefName pr) = None then approve_and_merge_pr cfg L pr merged tr
      else (case rebase_pr cfg L pr tr of
              (Inl e, t) \<Rightarrow> (Inl e, t)
            | (Inr _, t) \<Rightarrow> (Inr merged, t)))"


section \<open>The whole run\<close>

text \<open>
  One listed pull request pulled through the chain of lines 171-174: viewed, then dropped
  by the first stage that does not yield it, or handed on as ready.
\<close>

definition next_ready ::
  "config \<Rightarrow> lib \<Rightarrow> pr_dict \<Rightarrow> trace \<Rightarrow> (error + PullRequest option) \<times> trace" where
  "next_ready cfg L d tr =
     (case get_pull_requests_next L d tr of
        (Inl e, t) \<Rightarrow> (Inl e, t)
      | (Inr pr, t1) \<Rightarrow>
          (case match_labels_or_bot_next cfg pr t1 of
             (None, t2) \<Rightarrow> (Inr None, t2)
           | (Some labelled, t2) \<Rightarrow>
               (case mergeable_prs_next labelled t2 of
                  (None, t3) \<Rightarrow> (Inr None, t3)
                | (Some checkable, t3) \<Rightarrow> check_prs_ready_next cfg L checkable t3)))"

text \<open>The loop of lines 178-182 fed by the generators, over the sorted listing.\<close>

fun process_loop ::
  "config \<Rightarrow> lib \<Rightarrow> pr_dict list \<Rightarrow> (string \<rightharpoonup> PullRequest) \<Rightarrow> trace
     \<Rightarrow> (error + (string \<rightharpoonup> PullRequest)) \<times> trace" where
  "process_loop cfg L [] merged tr = (Inr merged, tr)"
| "process_loop cfg L (d # ds) merged tr =
     (case next_ready cfg L d tr of
        (Inl e, t) \<Rightarrow> (Inl e, t)
      | (Inr None, t) \<Rightarrow> process_loop cfg L ds merged t
      | (Inr (Some pr), t) \<Rightarrow>
          (case merge_or_rebase cfg L pr merged t of
             (Inl e, t') \<Rightarrow> (Inl e, t')
           | (Inr merged', t') \<Rightarrow> process_loop cfg L ds merged' t'))"

text \<open>
  \<^verbatim>\<open>process_pull_requests\<close> (lines 169-182). The first request for a ready pull request
  starts the generators from the consumer down: line 105 is printed, then the listing
  command runs. The result is the final \<^verbatim>\<open>merged\<close> dictionary, or the exception that
  ended the run, with the trace up to that point.
\<close>

definition process_pull_requests ::
  "config \<Rightarrow> lib \<Rightarrow> (error + (string \<rightharpoonup> PullRequest)) \<times> trace" where
  "process_pull_requests cfg L =
     (case get_pull_requests_begin L (match_labels_or_bot_begin cfg L []) of
        (Inl e, t) \<Rightarrow> (Inl e, t)
      | (Inr prs, t) \<Rightarrow> process_loop cfg L prs Map.empty t)"

section \<open>Observations on traces, and the decisions the specification asks for\<close>

text \<open>
  The commands handed to \<^verbatim>\<open>sh\<close>, in order, whether they were run or, in dry mode,
  only printed after "Would run: ".
\<close>

fun issued :: "trace \<Rightarrow> string list" where
  "issued [] = []"
| "issued (Run cmd # tr) = cmd # issued tr"
| "issued (Print s # tr) =
     (if prefix (tab ''Would run: '') s
      then drop (length (tab ''Would run: '')) s # issued tr else issued tr)"
| "issued (Yield g pr # tr) = issued tr"

text \<open>
  The merge and rebase commands among them: the decisions of the coordinator, in the order
  it took them.
\<close>

definition is_merge :: "string \<Rightarrow> bool" where
  "is_merge cmd = prefix ''gh pr merge '' cmd"

definition is_rebase :: "string \<Rightarrow> bool" where
  "is_rebase cmd = prefix ''gh pr update-branch '' cmd"

definition decisions :: "trace \<Rightarrow> string list" where
  "decisions tr = filter (\<lambda>cmd. is_merge cmd \<or> is_rebase cmd) (issued tr)"

text \<open>
  What the specification asks of the coordinator: the pull request at position \<open>i\<close> of the
  ready sequence is merged when no earlier pull request of the sequence has its base
  branch, and rebased otherwise.
\<close>

definition first_for_base :: "PullRequest list \<Rightarrow> nat \<Rightarrow> bool" where
  "first_for_base ready i = (baseRefName (ready ! i) \<notin> baseRefName ` set (take i ready))"

definition decision_cmds :: "PullRequest list \<Rightarrow> string list" where
  "decision_cmds ready =
     map (\<lambda>i. if first_for_base ready i then merge_cmd (number (ready ! i))
               else rebase_cmd (number (ready ! i))) [0..<length ready]"

text \<open>The approval comments among the commands.\<close>

definition is_review :: "string \<Rightarrow> bool" where
  "is_review cmd = prefix ''gh pr review '' cmd"

text \<open>
  The view and checks commands a trace calls for: one view for each pull request
  \<^verbatim>\<open>get_pull_requests\<close> yielded, one checks command for each pull request
  \<^verbatim>\<open>mergeable_prs\<close> yielded (the one \<^verbatim>\<open>check_prs_ready\<close> then fetches), in the order
  of the yields.
\<close>

fun fetches :: "trace \<Rightarrow> string list" where
  "fetches [] = []"
| "fetches (Yield g pr # tr) =
     (if g = Get_pull_requests then view_cmd (number pr) # fetches tr
      else if g = Mergeable_prs then checks_cmd (number pr) # fetches tr
      else fetches tr)"
| "fetches (e # tr) = fetches tr"

section \<open>Predicates on runs\<close>


text \<open>The command always exits with code 0, and its output, stripped, is \<open>out\<close>.\<close>

definition succeeds_with :: "lib \<Rightarrow> string \<Rightarrow> string \<Rightarrow> bool" where
  "succeeds_with L cmd out =
     (\<forall>h. \<exists>r. subprocess_run L h cmd = Inr r \<and> returncode r = 0 \<and> strip (stdout r) = out)"

section \<open>Concrete inputs\<close>

text \<open>Five checks, one of them with a bucket the classifier does not know.\<close>

definition example_checks :: "check_obj list" where
  "example_checks =
     [\<lparr>dict_name = ''build'', dict_bucket = ''pass''\<rparr>,
      \<lparr>dict_name = ''lint'', dict_bucket = ''fail''\<rparr>,
      \<lparr>dict_name = ''docs'', dict_bucket = ''neutral''\<rparr>,
      \<lparr>dict_name = ''unit'', dict_bucket = ''pass''\<rparr>,
      \<lparr>dict_name = ''deploy'', dict_bucket = ''pending''\<rparr>]"

text \<open>
  The scenario of two open pull requests: number 5 labelled \<^verbatim>\<open>automerge\<close>, number 7 without
  labels, both mergeable into \<^verbatim>\<open>main\<close>, both with two passing checks. The hosting service
  lists number 7 first. Every command succeeds and prints its own text and a line feed;
  the decoders read the listing, the view and the checks off that text.
\<close>

definition scenario_config :: "bool \<Rightarrow> config" where
  "scenario_config dry =
     \<lparr>APPROVE_MSG = ''All status checks passed for PR #{}.'', BOT_AUTHORS = [],
      DRY_RUN = dry, LABELS = [''automerge''], MIN_PASSING_CHECKS = 1\<rparr>"

definition listed5 :: pr_dict where
  "listed5 = \<lparr>listed_number = 5, listed_labels = [\<lparr>label_name = ''automerge''\<rparr>],
              listed_title = ''Bump dependency''\<rparr>"

definition listed7 :: pr_dict where
  "listed7 = \<lparr>listed_number = 7, listed_labels = [], listed_title = ''Fix typo''\<rparr>"

definition scenario_view :: view_dict where
  "scenario_view =
     \<lparr>view_mergeable = ''MERGEABLE'', view_baseRefName = ''main'',
      view_author = \<lparr>is_bot = False, login = ''alice'', author_id = None, author_name = None\<rparr>\<rparr>"

definition two_passing :: "check_obj list" where
  "two_passing = [\<lparr>dict_name = ''build'', dict_bucket = ''pass''\<rparr>,
                  \<lparr>dict_name = ''unit'', dict_bucket = ''pass''\<rparr>]"

definition scenario_lib :: lib where
  "scenario_lib =
     \<lparr>subprocess_run = (\<lambda>h cmd. Inr \<lparr>returncode = 0, stdout = cmd @ [CHR 0x0A], stderr = []\<rparr>),
      loads_pr_list = (\<lambda>s. if s = list_cmd then Inr [listed7, listed5]
                            else Inl (Raised ''JSONDecodeError'')),
      loads_pr_view = (\<lambda>s. if s = view_cmd 5 \<or> s = view_cmd 7 then Inr scenario_view
                            else Inl (Raised ''JSONDecodeError'')),
      loads_checks = (\<lambda>s. if s = checks_cmd 5 \<or> s = checks_cmd 7 then Inr two_passing
                           else Inl (Raised ''JSONDecodeError'')),
      str_format = (\<lambda>t n. Inr (''All status checks passed for PR #'' @ str_int n @ ''.'')),
      repr_list = (\<lambda>xs. ''['' @ join '', '' (map (\<lambda>x. [CHR 0x27] @ x @ [CHR 0x27]) xs) @ '']'')\<rparr>"

text \<open>The two pull requests as \<^verbatim>\<open>get_pull_requests\<close> builds them in the scenario.\<close>

definition pr5 :: PullRequest where
  "pr5 = \<lparr>number = 5, author = view_author scenario_view, title = ''Bump dependency'',
          labels = [\<lparr>label_name = ''automerge''\<rparr>], mergeable = ''MERGEABLE'',
          baseRefName = ''main'', checks = None\<rparr>"

definition pr7 :: PullRequest where
  "pr7 = \<lparr>number = 7, author = view_author scenario_view, title = ''Fix typo'',
          labels = [], mergeable = ''MERGEABLE'', baseRefName = ''main'', checks = None\<rparr>"

text \<open>The two passing checks of the scenario, and one more that is pending.\<close>

definition one_pending :: "check_obj list" where
  "one_pending = two_passing @ [\<lparr>dict_name = ''deploy'', dict_bucket = ''pending''\<rparr>]"


definition approve_msg5 :: string where
  "approve_msg5 = ''All status checks passed for PR #5.''"


section \<open>The classifier: lemmas\<close>

lemma from_list_loop_filter:
  "from_list_loop cs acc =
     \<lparr>passed = passed acc @ filter (\<lambda>c. dict_bucket c = ''pass'') cs,
      failed = failed acc @ filter (\<lambda>c. dict_bucket c = ''fail'') cs,
      pending = pending acc @ filter (\<lambda>c. dict_bucket c = ''pending'') cs,
      skipping = skipping acc @ filter (\<lambda>c. dict_bucket c = ''skipping'') cs,
      cancel = cancel acc @ filter (\<lambda>c. dict_bucket c = ''cancel'') cs\<rparr>"
  by (induction cs arbitrary: acc) (simp_all add: PullRequestCheck_init_def Let_def)

lemma from_list_filter:
  "from_list cs =
     \<lparr>passed = filter (\<lambda>c. dict_bucket c = ''pass'') cs,
      failed = filter (\<lambda>c. dict_bucket c = ''fail'') cs,
      pending = filter (\<lambda>c. dict_bucket c = ''pending'') cs,
      skipping = filter (\<lambda>c. dict_bucket c = ''skipping'') cs,
      cancel = filter (\<lambda>c. dict_bucket c = ''cancel'') cs\<rparr>"
  by (simp add: from_list_def from_list_loop_filter)

lemma length_five_filters:
  "length (filter (\<lambda>c. dict_bucket c = ''pass'') cs) +
   length (filter (\<lambda>c. dict_bucket c = ''fail'') cs) +
   length (filter (\<lambda>c. dict_bucket c = ''pending'') cs) +
   length (filter (\<lambda>c. dict_bucket c = ''skipping'') cs) +
   length (filter (\<lambda>c. dict_bucket c = ''cancel'') cs) =
   length (filter recognized cs)"
  by (induction cs) (auto simp: recognized_def)
section \<open>Traces and the command runner: lemmas\<close>

lemma yields_append [simp]: "yields g (xs @ ys) = yields g xs @ yields g ys"
  by (induction g xs rule: yields.induct) auto
lemma executed_append [simp]: "executed (xs @ ys) = executed xs @ executed ys"
  by (induction xs rule: executed.induct) auto
lemma sh_dry: "sh L cmd True tr = (Inr [], tr @ [Print (tab (''Would run: '' @ cmd))])"
  by (simp add: sh_def)

lemma sh_live_trace: "sh L cmd False tr = (res, t) \<Longrightarrow> t = tr @ [Run cmd]"
  by (auto simp: sh_def split: sum.splits if_splits)

lemma sh_live_Inr:
  "sh L cmd False tr = (Inr out, t) \<Longrightarrow>
     \<exists>r. subprocess_run L (executed tr) cmd = Inr r \<and> returncode r = 0 \<and> out = strip (stdout r)"
  by (auto simp: sh_def split: sum.splits if_splits)

















lemma missing_nil: "(filter (\<lambda>req. \<not> req \<in> set (map f ls)) reqs = []) = (set reqs \<subseteq> f ` set ls)"
  by (auto simp: filter_empty_conv)

section \<open>Evaluating the scenario: lemmas\<close>

lemma str_int_5: "str_int 5 = ''5''" by code_simp
lemma str_int_7: "str_int 7 = ''7''" by code_simp
lemma str_int_2: "str_int 2 = ''2''" by code_simp

lemma strip_line:
  assumes "c \<noteq> []" and "\<not> isspace (hd c)" and "\<not> isspace (last c)"
  shows "strip (c @ [CHR 0x0A]) = c"
proof -
  have 1: "dropWhile isspace (c @ [CHR 0x0A]) = c @ [CHR 0x0A]"
    using assms(1,2) by (cases c) auto
  have 2: "dropWhile isspace (rev c) = rev c"
    using assms(1,3) by (cases c rule: rev_cases) auto
  show ?thesis
    by (simp add: strip_def 1 2) (simp add: isspace_def)
qed

lemma strip_cmds:
  "strip (list_cmd @ [CHR 0x0A]) = list_cmd"
  "strip (view_cmd n @ [CHR 0x0A]) = view_cmd n"
  "strip (checks_cmd n @ [CHR 0x0A]) = checks_cmd n"
  "strip (review_cmd n msg @ [CHR 0x0A]) = review_cmd n msg"
  "strip (merge_cmd n @ [CHR 0x0A]) = merge_cmd n"
  "strip (rebase_cmd n @ [CHR 0x0A]) = rebase_cmd n"
  by (rule strip_line; simp add: list_cmd_def view_cmd_def checks_cmd_def review_cmd_def
        merge_cmd_def rebase_cmd_def isspace_def)+

lemma sh_scenario:
  "sh (scenario_lib\<lparr>loads_checks := f\<rparr>) c False tr = (Inr (strip (c @ [CHR 0x0A])), tr @ [Run c])"
  "sh scenario_lib c False tr = (Inr (strip (c @ [CHR 0x0A])), tr @ [Run c])"
  by (simp_all add: sh_def scenario_lib_def)

lemma sh_succeeds:
  "succeeds_with L cmd out \<Longrightarrow> sh L cmd False tr = (Inr out, tr @ [Run cmd])"
  unfolding succeeds_with_def sh_def
  by (auto split: sum.splits dest!: spec [of _ "executed tr"])

lemma eval_get_begin:
  "succeeds_with L list_cmd out \<Longrightarrow> loads_pr_list L out = Inr ds \<Longrightarrow>
     get_pull_requests_begin L tr = (Inr (sort_key listed_number ds), tr @ [Run list_cmd])"
  by (simp add: get_pull_requests_begin_def sh_succeeds)

lemma eval_get_next:
  "succeeds_with L (view_cmd (listed_number d)) out \<Longrightarrow> loads_pr_view L out = Inr v \<Longrightarrow>
   pr = \<lparr>number = listed_number d, author = view_author v, title = listed_title d,
         labels = listed_labels d, mergeable = view_mergeable v,
         baseRefName = view_baseRefName v, checks = None\<rparr> \<Longrightarrow>
     get_pull_requests_next L d tr =
       (Inr pr, tr @ [Run (view_cmd (listed_number d)), Print (pr_line pr),
                      Yield Get_pull_requests pr])"
  by (simp add: get_pull_requests_next_def sh_succeeds Let_def)

lemma eval_check_ready:
  "succeeds_with L (checks_cmd (number pr)) out \<Longrightarrow> loads_checks L out = Inr cs \<Longrightarrow>
   failed (from_list cs) = [] \<Longrightarrow> pending (from_list cs) = [] \<Longrightarrow> cancel (from_list cs) = [] \<Longrightarrow>
   MIN_PASSING_CHECKS cfg \<le> int (length (passed (from_list cs))) \<Longrightarrow>
     check_prs_ready_next cfg L pr tr =
       (Inr (Some (pr\<lparr>checks := Some (from_list cs)\<rparr>)),
        tr @ [Run (checks_cmd (number pr)),
              Yield Check_prs_ready (pr\<lparr>checks := Some (from_list cs)\<rparr>)])"
  by (simp add: check_prs_ready_next_def sh_succeeds Let_def)

lemma eval_approve_dry:
  "DRY_RUN cfg \<Longrightarrow> str_format L (APPROVE_MSG cfg) (number pr) = Inr msg \<Longrightarrow>
     approve_and_merge_pr cfg L pr merged tr =
       (Inr (merged(baseRefName pr \<mapsto> pr)),
        tr @ [Print (tab ''is ready to merging''),
              Print (tab (''Would run: '' @ review_cmd (number pr) msg)),
              Print (tab (''Would run: '' @ merge_cmd (number pr)))])"
  by (simp add: approve_and_merge_pr_def sh_dry Let_def)

lemma eval_approve_live:
  "\<not> DRY_RUN cfg \<Longrightarrow> str_format L (APPROVE_MSG cfg) (number pr) = Inr msg \<Longrightarrow>
   succeeds_with L (review_cmd (number pr) msg) o1 \<Longrightarrow>
   succeeds_with L (merge_cmd (number pr)) o2 \<Longrightarrow>
     approve_and_merge_pr cfg L pr merged tr =
       (Inr (merged(baseRefName pr \<mapsto> pr)),
        tr @ [Print (tab ''is ready to merging''), Run (review_cmd (number pr) msg),
              Run (merge_cmd (number pr)), Print (tab (''merged to '' @ baseRefName pr))])"
  by (simp add: approve_and_merge_pr_def sh_succeeds Let_def)

lemma succeeds_scenario:
  "succeeds_with scenario_lib list_cmd list_cmd"
  "succeeds_with scenario_lib (view_cmd n) (view_cmd n)"
  "succeeds_with scenario_lib (checks_cmd n) (checks_cmd n)"
  "succeeds_with scenario_lib (review_cmd n m) (review_cmd n m)"
  "succeeds_with scenario_lib (merge_cmd n) (merge_cmd n)"
  by (simp_all add: succeeds_with_def scenario_lib_def strip_cmds)

lemma scenario_data:
  "loads_pr_list scenario_lib list_cmd = Inr [listed7, listed5]"
  "loads_pr_view scenario_lib (view_cmd 5) = Inr scenario_view"
  "loads_pr_view scenario_lib (view_cmd 7) = Inr scenario_view"
  "loads_checks scenario_lib (checks_cmd 5) = Inr two_passing"
  "str_format scenario_lib t 5 = Inr approve_msg5"
  by (simp_all add: scenario_lib_def approve_msg5_def str_int_5)






section \<open>The merge coordinator: lemmas\<close>


lemma issued_append [simp]: "issued (xs @ ys) = issued xs @ issued ys"
  by (induction xs rule: issued.induct) auto

lemma decisions_append [simp]: "decisions (xs @ ys) = decisions xs @ decisions ys"
  by (simp add: decisions_def)

lemma tab_prefix [simp]: "prefix (tab a) (tab s) = prefix a s"
  by (simp add: tab_def)

lemma tab_drop [simp]: "drop (length (tab a)) (tab s) = drop (length a) s"
  by (simp add: tab_def)

lemma issued_would_run: "issued [Print (tab (''Would run: '' @ cmd))] = [cmd]"
  by simp

lemma issued_sh:
  assumes "sh L cmd d tr = (r, t)"
  shows "\<exists>evs. t = tr @ evs \<and> issued evs = [cmd]"
proof (cases d)
  case True
  with assms have "t = tr @ [Print (tab (''Would run: '' @ cmd))]"
    by (simp add: sh_dry)
  moreover have "issued [Print (tab (''Would run: '' @ cmd))] = [cmd]"
    by (rule issued_would_run)
  ultimately show ?thesis by blast
next
  case False
  with assms have "t = tr @ [Run cmd]" by (auto dest: sh_live_trace)
  then show ?thesis by simp
qed

lemma kinds [simp]:
  "is_merge (merge_cmd n)" "\<not> is_rebase (merge_cmd n)"
  "is_rebase (rebase_cmd n)" "\<not> is_merge (rebase_cmd n)"
  "\<not> is_merge (review_cmd n msg)" "\<not> is_rebase (review_cmd n msg)"
  by (simp_all add: is_merge_def is_rebase_def merge_cmd_def rebase_cmd_def review_cmd_def)

lemma decisions_approve:
  assumes "approve_and_merge_pr cfg L pr merged tr = (r, t)"
  shows "\<exists>evs. t = tr @ evs \<and> prefix (decisions evs) [merge_cmd (number pr)] \<and>
           (\<forall>m. r = Inr m \<longrightarrow> decisions evs = [merge_cmd (number pr)] \<and>
                               m = merged(baseRefName pr \<mapsto> pr))"
proof (cases "str_format L (APPROVE_MSG cfg) (number pr)")
  case (Inl e)
  with assms show ?thesis
    by (auto simp: approve_and_merge_pr_def Let_def decisions_def)
next
  case (Inr msg)
  obtain r1 t1 where s1: "sh L (review_cmd (number pr) msg) (DRY_RUN cfg)
                            (tr @ [Print (tab ''is ready to merging'')]) = (r1, t1)" by force
  from issued_sh [OF s1] obtain e1 where
    e1: "t1 = (tr @ [Print (tab ''is ready to merging'')]) @ e1" "issued e1 = [review_cmd (number pr) msg]"
    by blast
  show ?thesis
  proof (cases r1)
    case (Inl e)
    with assms Inr s1 e1 show ?thesis
      by (auto simp: approve_and_merge_pr_def Let_def decisions_def)
  next
    case ok: (Inr out)
    obtain r2 t2 where s2: "sh L (merge_cmd (number pr)) (DRY_RUN cfg) t1 = (r2, t2)" by force
    from issued_sh [OF s2] obtain e2 where
      e2: "t2 = t1 @ e2" "issued e2 = [merge_cmd (number pr)]" by blast
    show ?thesis
      using assms Inr s1 ok s2 e1 e2
      by (cases r2) (auto simp: approve_and_merge_pr_def Let_def decisions_def)
  qed
qed

lemma decisions_rebase:
  assumes "rebase_pr cfg L pr tr = (r, t)"
  shows "\<exists>evs. t = tr @ evs \<and> decisions evs = [rebase_cmd (number pr)]"
proof -
  obtain r1 t1 where s1: "sh L (rebase_cmd (number pr)) (DRY_RUN cfg)
        (tr @ [Print (tab (''needs to be rebased from '' @ baseRefName pr))]) = (r1, t1)" by force
  from issued_sh [OF s1] obtain e1 where
    "t1 = (tr @ [Print (tab (''needs to be rebased from '' @ baseRefName pr))]) @ e1"
    "issued e1 = [rebase_cmd (number pr)]" by blast
  with assms s1 show ?thesis
    by (cases r1) (auto simp: rebase_pr_def decisions_def)
qed

lemma decisions_merge_or_rebase:
  assumes "merge_or_rebase cfg L pr merged tr = (r, t)"
  shows "\<exists>evs. t = tr @ evs \<and>
           prefix (decisions evs)
             [if merged (baseRefName pr) = None then merge_cmd (number pr)
              else rebase_cmd (number pr)] \<and>
           (\<forall>m. r = Inr m \<longrightarrow>
              decisions evs = [if merged (baseRefName pr) = None then merge_cmd (number pr)
                               else rebase_cmd (number pr)] \<and>
              m = (if merged (baseRefName pr) = None then merged(baseRefName pr \<mapsto> pr)
                   else merged))"
proof (cases "merged (baseRefName pr) = None")
  case True
  with assms decisions_approve [of cfg L pr merged tr r t] show ?thesis
    by (simp add: merge_or_rebase_def)
next
  case False
  obtain r1 t1 where rb: "rebase_pr cfg L pr tr = (r1, t1)" by force
  from decisions_rebase [OF rb] obtain evs where
    "t1 = tr @ evs" "decisions evs = [rebase_cmd (number pr)]" by blast
  with assms False rb show ?thesis
    by (cases r1) (auto simp: merge_or_rebase_def)
qed


lemma decision_cmds_snoc:
  "decision_cmds (xs @ [p]) =
     decision_cmds xs @ [if baseRefName p \<notin> baseRefName ` set xs then merge_cmd (number p)
                         else rebase_cmd (number p)]"
  by (simp add: decision_cmds_def first_for_base_def nth_append)

lemma find_snoc:
  "find P (xs @ [p]) = (case find P xs of Some x \<Rightarrow> Some x | None \<Rightarrow> if P p then Some p else None)"
  by (induction xs) auto

lemma find_base_None: "(find (\<lambda>q. baseRefName q = b) xs = None) = (b \<notin> baseRefName ` set xs)"
  by (auto simp: find_None_iff)

lemma find_base_Some:
  "find (\<lambda>q. baseRefName q = b) xs = Some x \<Longrightarrow> b \<in> baseRefName ` set xs"
  by (auto simp: find_Some_iff)

lemma prefix_single: "prefix xs [a] = (xs = [] \<or> xs = [a])"
  by (cases xs) auto






section \<open>The shape of a run: lemmas\<close>

lemma fetches_append [simp]: "fetches (xs @ ys) = fetches xs @ fetches ys"
  by (induction xs rule: fetches.induct) auto

lemma fetch_kinds [simp]:
  "\<not> is_merge list_cmd" "\<not> is_rebase list_cmd" "\<not> is_review list_cmd"
  "\<not> is_merge (view_cmd n)" "\<not> is_rebase (view_cmd n)" "\<not> is_review (view_cmd n)"
  "\<not> is_merge (checks_cmd n)" "\<not> is_rebase (checks_cmd n)" "\<not> is_review (checks_cmd n)"
  by (simp_all add: is_merge_def is_rebase_def is_review_def list_cmd_def view_cmd_def
        checks_cmd_def)

lemma tab_eq [simp]: "(tab a = tab b) = (a = b)"
  by (simp add: tab_def)

lemma pr_line_not_would_run [simp]: "\<not> prefix (tab a) (pr_line pr)"
  by (simp add: tab_def pr_line_def)

lemma tab_prefix_Cons [simp]: "c \<noteq> CHR '' '' \<Longrightarrow> \<not> prefix (tab a) (c # s)"
  by (simp add: tab_def)

lemma get_begin_shape:
  assumes "get_pull_requests_begin L tr = (r, t)"
  shows "t = tr @ [Run list_cmd] \<and>
         (\<forall>prs. r = Inr prs \<longrightarrow>
            (\<exists>out ds. loads_pr_list L out = Inr ds \<and> prs = sort_key listed_number ds))"
  using assms
  by (auto simp: get_pull_requests_begin_def split: prod.splits sum.splits dest!: sh_live_trace)

lemma get_next_shape:
  assumes "get_pull_requests_next L d tr = (r, t)"
  shows "(\<exists>e. r = Inl e \<and> t = tr @ [Run (view_cmd (listed_number d))]) \<or>
         (\<exists>pr. r = Inr pr \<and> number pr = listed_number d \<and> checks pr = None \<and>
               t = tr @ [Run (view_cmd (listed_number d)), Print (pr_line pr),
                         Yield Get_pull_requests pr])"
  using assms
  by (auto simp: get_pull_requests_next_def Let_def split: prod.splits sum.splits
           dest!: sh_live_trace)

lemma match_shape:
  assumes "match_labels_or_bot_next cfg pr tr = (r, t)"
  shows "(\<exists>s. \<not> prefix ''Would run: '' s \<and> r = None \<and> t = tr @ [Print (tab s)]) \<or>
         (\<exists>s. \<not> prefix ''Would run: '' s \<and> r = Some pr \<and>
              t = tr @ [Print (tab s), Yield Match_labels_or_bot pr])"
  using assms
  by (auto simp: match_labels_or_bot_next_def Let_def split: if_splits)

lemma mergeable_shape:
  assumes "mergeable_prs_next pr tr = (r, t)"
  shows "(\<exists>s. \<not> prefix ''Would run: '' s \<and> r = None \<and> t = tr @ [Print (tab s)]) \<or>
         (\<exists>s. \<not> prefix ''Would run: '' s \<and> r = Some pr \<and>
              t = tr @ [Print (tab s), Yield Mergeable_prs pr])"
  using assms
  by (auto simp: mergeable_prs_next_def split: if_splits)

lemma check_shape:
  assumes "check_prs_ready_next cfg L pr tr = (r, t)"
  shows "(\<exists>e. r = Inl e \<and> t = tr @ [Run (checks_cmd (number pr))]) \<or>
         (\<exists>s. \<not> prefix ''Would run: '' s \<and> r = Inr None \<and>
              t = tr @ [Run (checks_cmd (number pr)), Print (tab s)]) \<or>
         (\<exists>cs. r = Inr (Some (pr\<lparr>checks := Some cs\<rparr>)) \<and>
               t = tr @ [Run (checks_cmd (number pr)),
                         Yield Check_prs_ready (pr\<lparr>checks := Some cs\<rparr>)])"
  using assms
  by (auto simp: check_prs_ready_next_def Let_def split: prod.splits sum.splits if_splits
           dest!: sh_live_trace)

lemma next_ready_shape:
  assumes "next_ready cfg L d tr = (r, t)"
  shows "\<exists>evs. t = tr @ evs \<and>
      (executed evs = fetches evs \<or>
       (executed evs = fetches evs @ [view_cmd (listed_number d)] \<and> (\<exists>e. r = Inl e))) \<and>
      decisions evs = [] \<and>
      ((yields Get_pull_requests evs = [] \<and> (\<exists>e. r = Inl e)) \<or>
       (\<exists>pr. yields Get_pull_requests evs = [pr] \<and> number pr = listed_number d)) \<and>
      subseq (yields Match_labels_or_bot evs) (yields Get_pull_requests evs) \<and>
      subseq (yields Mergeable_prs evs) (yields Match_labels_or_bot evs) \<and>
      subseq (map (\<lambda>p. p\<lparr>checks := None\<rparr>) (yields Check_prs_ready evs))
             (yields Mergeable_prs evs) \<and>
      yields Check_prs_ready evs = (case r of Inr (Some pr) \<Rightarrow> [pr] | _ \<Rightarrow> [])"
proof -
  obtain r1 t1 where g: "get_pull_requests_next L d tr = (r1, t1)" by force
  from get_next_shape [OF g] show ?thesis
  proof (elim disjE exE conjE)
    fix e assume "r1 = Inl e" "t1 = tr @ [Run (view_cmd (listed_number d))]"
    with assms g show ?thesis
      by (auto simp: next_ready_def decisions_def)
  next
    fix pr
    assume pr: "r1 = Inr pr" "number pr = listed_number d" "checks pr = None"
      and t1: "t1 = tr @ [Run (view_cmd (listed_number d)), Print (pr_line pr),
                         Yield Get_pull_requests pr]"
    obtain r2 t2 where m: "match_labels_or_bot_next cfg pr t1 = (r2, t2)" by force
    from match_shape [OF m] show ?thesis
    proof (elim disjE exE conjE)
      fix s assume "\<not> prefix ''Would run: '' s" "r2 = None" "t2 = t1 @ [Print (tab s)]"
      with assms g pr t1 m show ?thesis
        by (auto simp: next_ready_def decisions_def)
    next
      fix s assume s: "\<not> prefix ''Would run: '' s" and r2: "r2 = Some pr"
        and t2: "t2 = t1 @ [Print (tab s), Yield Match_labels_or_bot pr]"
      obtain r3 t3 where mg: "mergeable_prs_next pr t2 = (r3, t3)" by force
      from mergeable_shape [OF mg] show ?thesis
      proof (elim disjE exE conjE)
        fix s' assume "\<not> prefix ''Would run: '' s'" "r3 = None" "t3 = t2 @ [Print (tab s')]"
        with assms g pr t1 m r2 t2 mg s show ?thesis
          by (auto simp: next_ready_def decisions_def)
      next
        fix s' assume s': "\<not> prefix ''Would run: '' s'" and r3: "r3 = Some pr"
          and t3: "t3 = t2 @ [Print (tab s'), Yield Mergeable_prs pr]"
        from assms g pr m r2 mg r3 have c: "check_prs_ready_next cfg L pr t3 = (r, t)"
          by (simp add: next_ready_def)
        have un: "pr\<lparr>checks := None\<rparr> = pr" using pr(3) by simp
        from check_shape [OF c] show ?thesis
          using pr t1 t2 t3 un s s'
          by (elim disjE exE conjE) (auto simp: decisions_def)
      qed
    qed
  qed
qed

lemma merge_or_rebase_quiet:
  assumes "merge_or_rebase cfg L pr merged tr = (r, t)"
  shows "\<exists>evs. t = tr @ evs \<and> (\<forall>g. yields g evs = []) \<and> fetches evs = [] \<and>
               (DRY_RUN cfg \<longrightarrow> executed evs = [])"
  using assms
  by (cases "DRY_RUN cfg")
     (auto simp: merge_or_rebase_def approve_and_merge_pr_def rebase_pr_def Let_def sh_dry
           split: if_splits prod.splits sum.splits dest!: sh_live_trace)

lemma process_loop_shape:
  "process_loop cfg L ds merged tr = (res, t) \<Longrightarrow>
     \<exists>evs. t = tr @ evs \<and>
       prefix (map number (yields Get_pull_requests evs)) (map listed_number ds) \<and>
       subseq (yields Match_labels_or_bot evs) (yields Get_pull_requests evs) \<and>
       subseq (yields Mergeable_prs evs) (yields Match_labels_or_bot evs) \<and>
       subseq (map (\<lambda>p. p\<lparr>checks := None\<rparr>) (yields Check_prs_ready evs))
              (yields Mergeable_prs evs) \<and>
       (DRY_RUN cfg \<longrightarrow>
          (\<exists>ext. executed evs = fetches evs @ ext \<and>
                 (ext = [] \<or> (\<exists>n e. ext = [view_cmd n] \<and> res = Inl e))))"
proof (induction ds arbitrary: merged tr)
  case Nil
  then show ?case by auto
next
  case (Cons d ds)
  obtain r1 t1 where n: "next_ready cfg L d tr = (r1, t1)" by force
  from next_ready_shape [OF n] obtain e1 where
    e1: "t1 = tr @ e1"
    and x1: "executed e1 = fetches e1 \<or>
             (executed e1 = fetches e1 @ [view_cmd (listed_number d)] \<and> (\<exists>e. r1 = Inl e))"
    and g1: "(yields Get_pull_requests e1 = [] \<and> (\<exists>e. r1 = Inl e)) \<or>
             (\<exists>pr. yields Get_pull_requests e1 = [pr] \<and> number pr = listed_number d)"
    and s1: "subseq (yields Match_labels_or_bot e1) (yields Get_pull_requests e1)"
            "subseq (yields Mergeable_prs e1) (yields Match_labels_or_bot e1)"
            "subseq (map (\<lambda>p. p\<lparr>checks := None\<rparr>) (yields Check_prs_ready e1))
                    (yields Mergeable_prs e1)"
    by blast
  have pre1: "prefix (map number (yields Get_pull_requests e1)) (map listed_number (d # ds))"
    using g1 by auto
  show ?case
  proof (cases r1)
    case (Inl e)
    with Cons.prems n have "res = Inl e" "t = t1" by simp_all
    with e1 x1 pre1 s1 show ?thesis by auto
  next
    case (Inr opt)
    with x1 have x1': "executed e1 = fetches e1" by auto
    from g1 Inr obtain pr0 where
      g1': "yields Get_pull_requests e1 = [pr0]" "number pr0 = listed_number d" by auto
    have step: "\<exists>e2 t2. t2 = t1 @ e2 \<and> (\<forall>g. yields g e2 = []) \<and> fetches e2 = [] \<and>
                  (DRY_RUN cfg \<longrightarrow> executed e2 = []) \<and>
                  ((\<exists>e. res = Inl e \<and> t = t2) \<or>
                   (\<exists>m2. process_loop cfg L ds m2 t2 = (res, t)))"
    proof (cases opt)
      case None
      with Cons.prems n Inr have "process_loop cfg L ds merged t1 = (res, t)" by simp
      then show ?thesis by (intro exI [of _ "[]"] exI [of _ t1]) auto
    next
      case (Some pr)
      obtain r2 t2 where m: "merge_or_rebase cfg L pr merged t1 = (r2, t2)" by force
      from merge_or_rebase_quiet [OF m] obtain e2 where
        q: "t2 = t1 @ e2" "\<forall>g. yields g e2 = []" "fetches e2 = []"
           "DRY_RUN cfg \<longrightarrow> executed e2 = []" by blast
      have "(\<exists>e. res = Inl e \<and> t = t2) \<or> (\<exists>m2. process_loop cfg L ds m2 t2 = (res, t))"
        using Cons.prems n Inr Some m by (cases r2) auto
      with q show ?thesis by blast
    qed
    then obtain e2 t2 where
      q: "t2 = t1 @ e2" "\<forall>g. yields g e2 = []" "fetches e2 = []"
         "DRY_RUN cfg \<longrightarrow> executed e2 = []"
      and alt: "(\<exists>e. res = Inl e \<and> t = t2) \<or> (\<exists>m2. process_loop cfg L ds m2 t2 = (res, t))"
      by blast
    from alt show ?thesis
    proof
      assume "\<exists>e. res = Inl e \<and> t = t2"
      then have "t = tr @ (e1 @ e2)" using e1 q(1) by auto
      moreover have "prefix (map number (yields Get_pull_requests (e1 @ e2)))
                       (map listed_number (d # ds))"
        using pre1 q(2) by simp
      moreover have "DRY_RUN cfg \<longrightarrow> executed (e1 @ e2) = fetches (e1 @ e2) @ []"
        using x1' q by simp
      ultimately show ?thesis
        using s1 q(2) by (intro exI [of _ "e1 @ e2"]) auto
    next
      assume "\<exists>m2. process_loop cfg L ds m2 t2 = (res, t)"
      then obtain m2 where "process_loop cfg L ds m2 t2 = (res, t)" by blast
      from Cons.IH [OF this] obtain e3 where
        e3: "t = t2 @ e3"
        and p3: "prefix (map number (yields Get_pull_requests e3)) (map listed_number ds)"
        and s3: "subseq (yields Match_labels_or_bot e3) (yields Get_pull_requests e3)"
                "subseq (yields Mergeable_prs e3) (yields Match_labels_or_bot e3)"
                "subseq (map (\<lambda>p. p\<lparr>checks := None\<rparr>) (yields Check_prs_ready e3))
                        (yields Mergeable_prs e3)"
        and x3: "DRY_RUN cfg \<longrightarrow>
                   (\<exists>ext. executed e3 = fetches e3 @ ext \<and>
                          (ext = [] \<or> (\<exists>n e. ext = [view_cmd n] \<and> res = Inl e)))"
        by blast
      have "t = tr @ (e1 @ e2 @ e3)" using e1 q(1) e3 by simp
      moreover have "prefix (map number (yields Get_pull_requests (e1 @ e2 @ e3)))
                       (map listed_number (d # ds))"
        using g1' p3 q(2) by simp
      moreover have "subseq (yields Match_labels_or_bot (e1 @ e2 @ e3))
                       (yields Get_pull_requests (e1 @ e2 @ e3))"
        using s1(1) s3(1) q(2) by (simp add: list_emb_append_mono)
      moreover have "subseq (yields Mergeable_prs (e1 @ e2 @ e3))
                       (yields Match_labels_or_bot (e1 @ e2 @ e3))"
        using s1(2) s3(2) q(2) by (simp add: list_emb_append_mono)
      moreover have "subseq (map (\<lambda>p. p\<lparr>checks := None\<rparr>) (yields Check_prs_ready (e1 @ e2 @ e3)))
                       (yields Mergeable_prs (e1 @ e2 @ e3))"
        using s1(3) s3(3) q(2) by (simp add: list_emb_append_mono)
      moreover have "DRY_RUN cfg \<longrightarrow>
                   (\<exists>ext. executed (e1 @ e2 @ e3) = fetches (e1 @ e2 @ e3) @ ext \<and>
                          (ext = [] \<or> (\<exists>n e. ext = [view_cmd n] \<and> res = Inl e)))"
        using x1' q(3,4) x3 by auto
      ultimately show ?thesis by blast
    qed
  qed
qed

lemma process_shape:
  assumes "process_pull_requests cfg L = (res, t)"
  shows "sorted (map number (yields Get_pull_requests t)) \<and>
         subseq (yields Match_labels_or_bot t) (yields Get_pull_requests t) \<and>
         subseq (yields Mergeable_prs t) (yields Match_labels_or_bot t) \<and>
         subseq (map (\<lambda>p. p\<lparr>checks := None\<rparr>) (yields Check_prs_ready t))
                (yields Mergeable_prs t) \<and>
         (DRY_RUN cfg \<longrightarrow>
            (\<exists>ext. executed t = list_cmd # fetches t @ ext \<and>
                   (ext = [] \<or> (\<exists>n e. ext = [view_cmd n] \<and> res = Inl e))))"
proof -
  define t0 where "t0 = match_labels_or_bot_begin cfg L []"
  have t0: "executed t0 = []" "fetches t0 = []" "\<And>g. yields g t0 = []"
    by (simp_all add: t0_def match_labels_or_bot_begin_def)
  obtain r1 t1 where g: "get_pull_requests_begin L t0 = (r1, t1)" by force
  from get_begin_shape [OF g] have
    t1: "t1 = t0 @ [Run list_cmd]"
    and srt: "\<forall>prs. r1 = Inr prs \<longrightarrow>
                (\<exists>out ds. loads_pr_list L out = Inr ds \<and> prs = sort_key listed_number ds)"
    by auto
  show ?thesis
  proof (cases r1)
    case (Inl e)
    with assms g have "t = t1" by (simp add: process_pull_requests_def t0_def)
    with t1 t0 show ?thesis by simp
  next
    case (Inr prs)
    with assms g have l: "process_loop cfg L prs Map.empty t1 = (res, t)"
      by (simp add: process_pull_requests_def t0_def)
    from srt Inr have sorted: "sorted (map listed_number prs)" by auto
    from process_loop_shape [OF l] obtain evs where
      e: "t = t1 @ evs"
      and p: "prefix (map number (yields Get_pull_requests evs)) (map listed_number prs)"
      and s: "subseq (yields Match_labels_or_bot evs) (yields Get_pull_requests evs)"
             "subseq (yields Mergeable_prs evs) (yields Match_labels_or_bot evs)"
             "subseq (map (\<lambda>p. p\<lparr>checks := None\<rparr>) (yields Check_prs_ready evs))
                     (yields Mergeable_prs evs)"
      and x: "DRY_RUN cfg \<longrightarrow>
                (\<exists>ext. executed evs = fetches evs @ ext \<and>
                       (ext = [] \<or> (\<exists>n e. ext = [view_cmd n] \<and> res = Inl e)))"
      by blast
    have "sorted (map number (yields Get_pull_requests evs))"
      using p sorted by (rule sorted_antimono_prefix)
    with e t1 t0 s x show ?thesis by simp
  qed
qed



lemma process_loop_decisions:
  "process_loop cfg L ds merged tr = (res, t) \<Longrightarrow>
   (\<forall>b. merged b = find (\<lambda>p. baseRefName p = b) (yields Check_prs_ready tr)) \<Longrightarrow>
   decisions tr = decision_cmds (yields Check_prs_ready tr) \<Longrightarrow>
     prefix (decisions t) (decision_cmds (yields Check_prs_ready t)) \<and>
     (\<forall>m. res = Inr m \<longrightarrow>
        decisions t = decision_cmds (yields Check_prs_ready t) \<and>
        (\<forall>b. m b = find (\<lambda>p. baseRefName p = b) (yields Check_prs_ready t)))"
proof (induction ds arbitrary: merged tr)
  case Nil
  then show ?case by auto
next
  case (Cons d ds)
  obtain r1 t1 where n: "next_ready cfg L d tr = (r1, t1)" by force
  from next_ready_shape [OF n] obtain e1 where
    e1: "t1 = tr @ e1" and d1: "decisions e1 = []"
    and y1: "yields Check_prs_ready e1 = (case r1 of Inr (Some pr) \<Rightarrow> [pr] | _ \<Rightarrow> [])"
    by blast
  show ?case
  proof (cases r1)
    case (Inl e)
    with Cons.prems(1) n have "res = Inl e" "t = t1" by simp_all
    with e1 d1 y1 Inl Cons.prems(3) show ?thesis by simp
  next
    case (Inr opt)
    show ?thesis
    proof (cases opt)
      case None
      with Cons.prems(1) n Inr have l: "process_loop cfg L ds merged t1 = (res, t)" by simp
      show ?thesis
        using Cons.IH [OF l] Cons.prems(2,3) e1 d1 y1 Inr None by simp
    next
      case (Some pr)
      let ?Y = "yields Check_prs_ready tr"
      have Y1: "yields Check_prs_ready t1 = ?Y @ [pr]"
        using e1 y1 Inr Some by simp
      have none: "(merged (baseRefName pr) = None) = (baseRefName pr \<notin> baseRefName ` set ?Y)"
        using Cons.prems(2) by (simp add: find_base_None)
      obtain r2 t2 where m: "merge_or_rebase cfg L pr merged t1 = (r2, t2)" by force
      from decisions_merge_or_rebase [OF m] obtain e2 where
        e2: "t2 = t1 @ e2"
        and p2: "prefix (decisions e2)
                   [if merged (baseRefName pr) = None then merge_cmd (number pr)
                    else rebase_cmd (number pr)]"
        and f2: "\<forall>m. r2 = Inr m \<longrightarrow>
                   decisions e2 = [if merged (baseRefName pr) = None then merge_cmd (number pr)
                                   else rebase_cmd (number pr)] \<and>
                   m = (if merged (baseRefName pr) = None then merged(baseRefName pr \<mapsto> pr)
                        else merged)"
        by blast
      from merge_or_rebase_quiet [OF m] e2 have q2: "yields Check_prs_ready e2 = []" by auto
      have Y2: "yields Check_prs_ready t2 = ?Y @ [pr]"
        using Y1 e2 q2 by simp
      have D2: "decisions t2 = decision_cmds ?Y @ decisions e2"
        using e1 e2 d1 Cons.prems(3) by simp
      show ?thesis
      proof (cases r2)
        case (Inl e)
        with Cons.prems(1) n Inr Some m have "res = Inl e" "t = t2" by simp_all
        with Y2 D2 p2 none show ?thesis
          by (auto simp: decision_cmds_snoc prefix_single split: if_splits)
      next
        case ok: (Inr m2)
        with Cons.prems(1) n Inr Some m have l: "process_loop cfg L ds m2 t2 = (res, t)" by simp
        from f2 ok have
          dd: "decisions e2 = [if merged (baseRefName pr) = None then merge_cmd (number pr)
                               else rebase_cmd (number pr)]"
          and mm: "m2 = (if merged (baseRefName pr) = None then merged(baseRefName pr \<mapsto> pr)
                         else merged)"
          by auto
        have inv1: "\<forall>b. m2 b = find (\<lambda>p. baseRefName p = b) (yields Check_prs_ready t2)"
          using mm Cons.prems(2) none
          by (auto simp: Y2 find_snoc find_base_None split: option.splits dest: find_base_Some)
        have inv2: "decisions t2 = decision_cmds (yields Check_prs_ready t2)"
          using D2 dd none by (simp add: Y2 decision_cmds_snoc)
        show ?thesis by (rule Cons.IH [OF l inv1 inv2])
      qed
    qed
  qed
qed

lemma process_decisions:
  assumes "process_pull_requests cfg L = (res, t)"
  shows "prefix (decisions t) (decision_cmds (yields Check_prs_ready t)) \<and>
         (\<forall>m. res = Inr m \<longrightarrow>
            decisions t = decision_cmds (yields Check_prs_ready t) \<and>
            (\<forall>b. m b = find (\<lambda>p. baseRefName p = b) (yields Check_prs_ready t)))"
proof -
  define t0 where "t0 = match_labels_or_bot_begin cfg L []"
  obtain r1 t1 where g: "get_pull_requests_begin L t0 = (r1, t1)" by force
  from get_begin_shape [OF g] have t1: "t1 = t0 @ [Run list_cmd]" by auto
  have y: "yields Check_prs_ready t1 = []" and d: "decisions t1 = []"
    by (simp_all add: t1 t0_def match_labels_or_bot_begin_def decisions_def)
  show ?thesis
  proof (cases r1)
    case (Inl e)
    with assms g have "t = t1" by (simp add: process_pull_requests_def t0_def)
    with y d Inl assms g show ?thesis
      by (auto simp: process_pull_requests_def t0_def decision_cmds_def)
  next
    case (Inr prs)
    with assms g have l: "process_loop cfg L prs Map.empty t1 = (res, t)"
      by (simp add: process_pull_requests_def t0_def)
    show ?thesis
      by (rule process_loop_decisions [OF l]) (simp_all add: y d decision_cmds_def)
  qed
qed

section \<open>The scenario: lemmas\<close>

lemma scenario_trace:
  assumes cfg: "LABELS cfg = [''automerge'']" "BOT_AUTHORS cfg = []" "MIN_PASSING_CHECKS cfg = 1"
    and listing: "succeeds_with L list_cmd out_list" "loads_pr_list L out_list = Inr ds"
                 "ds = [d5, d7] \<or> ds = [d7, d5]"
    and d5: "listed_number d5 = 5" "map label_name (listed_labels d5) = [''automerge'']"
    and d7: "listed_number d7 = 7" "listed_labels d7 = []"
    and v5: "succeeds_with L (view_cmd 5) out5" "loads_pr_view L out5 = Inr v5"
            "view_mergeable v5 = ''MERGEABLE''" "view_baseRefName v5 = ''main''"
    and v7: "succeeds_with L (view_cmd 7) out7" "loads_pr_view L out7 = Inr v7"
            "view_mergeable v7 = ''MERGEABLE''" "view_baseRefName v7 = ''main''"
    and c5: "succeeds_with L (checks_cmd 5) outc" "loads_checks L outc = Inr cs"
            "map dict_bucket cs = [''pass'', ''pass'']"
    and msg: "str_format L (APPROVE_MSG cfg) 5 = Inr msg"
    and live: "DRY_RUN cfg \<or>
                 (succeeds_with L (review_cmd 5 msg) o1 \<and> succeeds_with L (merge_cmd 5) o2)"
    and p5: "p5 = \<lparr>number = 5, author = view_author v5, title = listed_title d5,
                    labels = listed_labels d5, mergeable = ''MERGEABLE'',
                    baseRefName = ''main'', checks = None\<rparr>"
    and p7: "p7 = \<lparr>number = 7, author = view_author v7, title = listed_title d7,
                    labels = [], mergeable = ''MERGEABLE'',
                    baseRefName = ''main'', checks = None\<rparr>"
    and r5: "ready5 = p5\<lparr>checks := Some (from_list cs)\<rparr>"
  shows "process_pull_requests cfg L =
           (Inr [''main'' \<mapsto> ready5],
            [Print (''LABELS='' @ repr_list L [''automerge'']),
             Run list_cmd,
             Run (view_cmd 5), Print (pr_line p5), Yield Get_pull_requests p5,
             Print (tab ''matches labels''), Yield Match_labels_or_bot p5,
             Print (tab ''is mergeable''), Yield Mergeable_prs p5,
             Run (checks_cmd 5), Yield Check_prs_ready ready5,
             Print (tab ''is ready to merging'')] @
            (if DRY_RUN cfg
             then [Print (tab (''Would run: '' @ review_cmd 5 msg)),
                   Print (tab (''Would run: '' @ merge_cmd 5))]
             else [Run (review_cmd 5 msg), Run (merge_cmd 5), Print (tab ''merged to main'')]) @
            [Run (view_cmd 7), Print (pr_line p7), Yield Get_pull_requests p7,
             Print (tab ''skipped not labeled with labels=automerge'')])"
proof -
  have sorted: "sort_key listed_number ds = [d5, d7]"
    using listing(3) d5(1) d7(1) by auto
  have cls: "from_list cs = \<lparr>passed = cs, failed = [], pending = [], skipping = [], cancel = []\<rparr>"
    using c5(3) by (auto simp: from_list_filter filter_empty_conv filter_id_conv)
  have len: "length cs = 2"
    using c5(3) by (metis length_map length_Cons list.size(3) numeral_2_eq_2)
  have g5: "get_pull_requests_next L d5 tr =
              (Inr p5, tr @ [Run (view_cmd 5), Print (pr_line p5), Yield Get_pull_requests p5])" for tr
    using eval_get_next [of L d5 out5 v5 p5 tr] d5 v5 p5 by simp
  have g7: "get_pull_requests_next L d7 tr =
              (Inr p7, tr @ [Run (view_cmd 7), Print (pr_line p7), Yield Get_pull_requests p7])" for tr
    using eval_get_next [of L d7 out7 v7 p7 tr] d7 v7 p7 by simp
  have m5: "match_labels_or_bot_next cfg p5 tr =
              (Some p5, tr @ [Print (tab ''matches labels''), Yield Match_labels_or_bot p5])" for tr
    using cfg d5 by (simp add: match_labels_or_bot_next_def p5)
  have m7: "match_labels_or_bot_next cfg p7 tr =
              (None, tr @ [Print (tab ''skipped not labeled with labels=automerge'')])" for tr
    using cfg by (simp add: match_labels_or_bot_next_def p7)
  have mg5: "mergeable_prs_next p5 tr =
              (Some p5, tr @ [Print (tab ''is mergeable''), Yield Mergeable_prs p5])" for tr
    by (simp add: mergeable_prs_next_def p5)
  have ck5: "check_prs_ready_next cfg L p5 tr =
              (Inr (Some ready5), tr @ [Run (checks_cmd 5), Yield Check_prs_ready ready5])" for tr
    using eval_check_ready [of L p5 outc cs cfg tr] c5 cfg cls len by (simp add: p5 r5)
  have n5: "next_ready cfg L d5 tr =
              (Inr (Some ready5),
               tr @ [Run (view_cmd 5), Print (pr_line p5), Yield Get_pull_requests p5,
                     Print (tab ''matches labels''), Yield Match_labels_or_bot p5,
                     Print (tab ''is mergeable''), Yield Mergeable_prs p5,
                     Run (checks_cmd 5), Yield Check_prs_ready ready5])" for tr
    by (simp add: next_ready_def g5 m5 mg5 ck5)
  have n7: "next_ready cfg L d7 tr =
              (Inr None, tr @ [Run (view_cmd 7), Print (pr_line p7), Yield Get_pull_requests p7,
                               Print (tab ''skipped not labeled with labels=automerge'')])" for tr
    by (simp add: next_ready_def g7 m7)
  have num: "number ready5 = 5" "baseRefName ready5 = ''main''"
    by (simp_all add: r5 p5)
  have a5: "merge_or_rebase cfg L ready5 Map.empty tr =
              (Inr [''main'' \<mapsto> ready5],
               tr @ [Print (tab ''is ready to merging'')] @
               (if DRY_RUN cfg
                then [Print (tab (''Would run: '' @ review_cmd 5 msg)),
                      Print (tab (''Would run: '' @ merge_cmd 5))]
                else [Run (review_cmd 5 msg), Run (merge_cmd 5),
                      Print (tab ''merged to main'')]))" for tr
    using eval_approve_dry [of cfg L ready5 msg Map.empty tr]
          eval_approve_live [of cfg L ready5 msg o1 o2 Map.empty tr] msg live num
    by (auto simp: merge_or_rebase_def)
  have b: "get_pull_requests_begin L tr = (Inr [d5, d7], tr @ [Run list_cmd])" for tr
    using eval_get_begin [OF listing(1,2)] sorted by simp
  show ?thesis
    by (simp add: process_pull_requests_def match_labels_or_bot_begin_def cfg b n5 n7 a5)
qed

lemma scenario_run:
  "process_pull_requests (scenario_config d) scenario_lib =
     (Inr [''main'' \<mapsto> pr5\<lparr>checks := Some (from_list two_passing)\<rparr>],
      [Print (''LABELS='' @ repr_list scenario_lib [''automerge'']),
       Run list_cmd,
       Run (view_cmd 5), Print (pr_line pr5), Yield Get_pull_requests pr5,
       Print (tab ''matches labels''), Yield Match_labels_or_bot pr5,
       Print (tab ''is mergeable''), Yield Mergeable_prs pr5,
       Run (checks_cmd 5),
       Yield Check_prs_ready (pr5\<lparr>checks := Some (from_list two_passing)\<rparr>),
       Print (tab ''is ready to merging'')] @
      (if d
       then [Print (tab (''Would run: '' @ review_cmd 5 approve_msg5)),
             Print (tab (''Would run: '' @ merge_cmd 5))]
       else [Run (review_cmd 5 approve_msg5), Run (merge_cmd 5), Print (tab ''merged to main'')]) @
      [Run (view_cmd 7), Print (pr_line pr7), Yield Get_pull_requests pr7,
       Print (tab ''skipped not labeled with labels=automerge'')])"
proof -
  have live: "DRY_RUN (scenario_config d) \<or>
        (succeeds_with scenario_lib (review_cmd 5 approve_msg5) (review_cmd 5 approve_msg5) \<and>
         succeeds_with scenario_lib (merge_cmd 5) (merge_cmd 5))"
    by (simp add: succeeds_scenario)
  have d: "DRY_RUN (scenario_config d) = d" by (simp add: scenario_config_def)
  have "process_pull_requests (scenario_config d) scenario_lib =
     (Inr [''main'' \<mapsto> pr5\<lparr>checks := Some (from_list two_passing)\<rparr>],
      [Print (''LABELS='' @ repr_list scenario_lib [''automerge'']),
       Run list_cmd,
       Run (view_cmd 5), Print (pr_line pr5), Yield Get_pull_requests pr5,
       Print (tab ''matches labels''), Yield Match_labels_or_bot pr5,
       Print (tab ''is mergeable''), Yield Mergeable_prs pr5,
       Run (checks_cmd 5),
       Yield Check_prs_ready (pr5\<lparr>checks := Some (from_list two_passing)\<rparr>),
       Print (tab ''is ready to merging'')] @
      (if DRY_RUN (scenario_config d)
       then [Print (tab (''Would run: '' @ review_cmd 5 approve_msg5)),
             Print (tab (''Would run: '' @ merge_cmd 5))]
       else [Run (review_cmd 5 approve_msg5), Run (merge_cmd 5), Print (tab ''merged to main'')]) @
      [Run (view_cmd 7), Print (pr_line pr7), Yield Get_pull_requests pr7,
       Print (tab ''skipped not labeled with labels=automerge'')])"
    by (rule scenario_trace [where ?d5.0 = listed5 and ?d7.0 = listed7
             and ?v5.0 = scenario_view and ?v7.0 = scenario_view and cs = two_passing
             and ds = "[listed7, listed5]", OF _ _ _ succeeds_scenario(1) scenario_data(1) _ _ _ _ _
             succeeds_scenario(2) scenario_data(2) _ _ succeeds_scenario(2) scenario_data(3) _ _
             succeeds_scenario(3) scenario_data(4) _ scenario_data(5) live])
       (simp_all add: scenario_config_def listed5_def listed7_def scenario_view_def two_passing_def
          pr5_def pr7_def)
  then show ?thesis unfolding d .
qed

section \<open>Dry and live runs: lemmas\<close>








lemma sorted_subseq: "subseq xs ys \<Longrightarrow> sorted ys \<Longrightarrow> sorted xs"
  by (auto simp: subseq_conv_nths sorted_nths)

lemma number_unchecked: "map number (map (\<lambda>p. p\<lparr>checks := None\<rparr>) ps) = map number ps"
  by simp



section \<open>Claims about the classifier\<close>

text \<open>
  C3. For every list of raw checks, \<^verbatim>\<open>from_list\<close> partitions the input by bucket tag: each
  of the five sequences is the input filtered by its tag, so the order of the input is
  kept within each bucket; the five lengths add up to the number of inputs with a
  recognized tag; the five sequences together hold exactly the inputs with a recognized
  tag; no record is in two of them; a check with an unrecognized tag is in none.
\<close>

theorem from_list_partitions:
  "passed (from_list cs) = filter (\<lambda>c. dict_bucket c = ''pass'') cs \<and>
   failed (from_list cs) = filter (\<lambda>c. dict_bucket c = ''fail'') cs \<and>
   pending (from_list cs) = filter (\<lambda>c. dict_bucket c = ''pending'') cs \<and>
   skipping (from_list cs) = filter (\<lambda>c. dict_bucket c = ''skipping'') cs \<and>
   cancel (from_list cs) = filter (\<lambda>c. dict_bucket c = ''cancel'') cs \<and>
   length (passed (from_list cs)) + length (failed (from_list cs)) +
     length (pending (from_list cs)) + length (skipping (from_list cs)) +
     length (cancel (from_list cs)) = length (filter recognized cs) \<and>
   set (passed (from_list cs)) \<union> set (failed (from_list cs)) \<union> set (pending (from_list cs)) \<union>
     set (skipping (from_list cs)) \<union> set (cancel (from_list cs)) = {c \<in> set cs. recognized c} \<and>
   (\<forall>c. length (filter (\<lambda>l. c \<in> set l)
          [passed (from_list cs), failed (from_list cs), pending (from_list cs),
           skipping (from_list cs), cancel (from_list cs)]) \<le> 1) \<and>
   (\<forall>c. \<not> recognized c \<longrightarrow>
        c \<notin> set (passed (from_list cs)) \<union> set (failed (from_list cs)) \<union>
            set (pending (from_list cs)) \<union> set (skipping (from_list cs)) \<union>
            set (cancel (from_list cs)))"
proof -
  have sets: "set (passed (from_list cs)) \<union> set (failed (from_list cs)) \<union>
      set (pending (from_list cs)) \<union> set (skipping (from_list cs)) \<union>
      set (cancel (from_list cs)) = {c \<in> set cs. recognized c}"
    by (auto simp: from_list_filter recognized_def)
  have one: "\<forall>c. length (filter (\<lambda>l. c \<in> set l)
          [passed (from_list cs), failed (from_list cs), pending (from_list cs),
           skipping (from_list cs), cancel (from_list cs)]) \<le> 1"
    by (auto simp: from_list_filter)
  have out: "\<forall>c. \<not> recognized c \<longrightarrow>
        c \<notin> set (passed (from_list cs)) \<union> set (failed (from_list cs)) \<union>
            set (pending (from_list cs)) \<union> set (skipping (from_list cs)) \<union>
            set (cancel (from_list cs))"
    using sets by blast
  have len: "length (passed (from_list cs)) + length (failed (from_list cs)) +
     length (pending (from_list cs)) + length (skipping (from_list cs)) +
     length (cancel (from_list cs)) = length (filter recognized cs)"
    using length_five_filters [of cs] by (simp add: from_list_filter)
  show ?thesis
    using sets one out len by (simp add: from_list_filter)
qed

theorem from_list_partitions_witness:
  "passed (from_list example_checks) =
     [\<lparr>dict_name = ''build'', dict_bucket = ''pass''\<rparr>,
      \<lparr>dict_name = ''unit'', dict_bucket = ''pass''\<rparr>] \<and>
   failed (from_list example_checks) = [\<lparr>dict_name = ''lint'', dict_bucket = ''fail''\<rparr>] \<and>
   pending (from_list example_checks) = [\<lparr>dict_name = ''deploy'', dict_bucket = ''pending''\<rparr>] \<and>
   skipping (from_list example_checks) = [] \<and>
   cancel (from_list example_checks) = [] \<and>
   length (filter recognized example_checks) = 4 \<and>
   \<lparr>dict_name = ''docs'', dict_bucket = ''neutral''\<rparr> \<notin>
     set (passed (from_list example_checks)) \<union> set (failed (from_list example_checks)) \<union>
     set (pending (from_list example_checks)) \<union> set (skipping (from_list example_checks)) \<union>
     set (cancel (from_list example_checks))"
  using from_list_partitions [of example_checks]
  by (simp add: example_checks_def recognized_def)

text \<open>
  C10. For every list of raw check records, each of the five output sequences of
  \<^verbatim>\<open>from_list\<close> is a subsequence of the input list: its elements are the dictionaries as
  they were received, of the type of the input and not of the type \<^verbatim>\<open>PullRequestCheck\<close>.
  The \<^verbatim>\<open>PullRequestCheck\<close> built from a record is read for its bucket only, which is the
  tag of the sequence the record went to.
\<close>

theorem from_list_keeps_records:
  "subseq (passed (from_list cs)) cs \<and> subseq (failed (from_list cs)) cs \<and>
   subseq (pending (from_list cs)) cs \<and> subseq (skipping (from_list cs)) cs \<and>
   subseq (cancel (from_list cs)) cs \<and>
   list_all (\<lambda>x. bucket (PullRequestCheck_init x) = ''pass'') (passed (from_list cs)) \<and>
   list_all (\<lambda>x. bucket (PullRequestCheck_init x) = ''fail'') (failed (from_list cs)) \<and>
   list_all (\<lambda>x. bucket (PullRequestCheck_init x) = ''pending'') (pending (from_list cs)) \<and>
   list_all (\<lambda>x. bucket (PullRequestCheck_init x) = ''skipping'') (skipping (from_list cs)) \<and>
   list_all (\<lambda>x. bucket (PullRequestCheck_init x) = ''cancel'') (cancel (from_list cs))"
  by (simp add: from_list_filter PullRequestCheck_init_def list_all_iff)

theorem from_list_keeps_records_witness:
  "subseq (passed (from_list example_checks)) example_checks \<and>
   subseq (failed (from_list example_checks)) example_checks \<and>
   subseq (pending (from_list example_checks)) example_checks \<and>
   list_all (\<lambda>x. bucket (PullRequestCheck_init x) = ''pass'') (passed (from_list example_checks))"
  using from_list_keeps_records [of example_checks] by simp

section \<open>Claims about the eligibility pipeline\<close>

text \<open>
  C4. For every pull request entering the label-or-bot stage, the stage yields it if and
  only if its author is flagged as a bot and the login is in \<^verbatim>\<open>BOT_AUTHORS\<close>, or
  \<^verbatim>\<open>LABELS\<close> is empty, or every required label is among the names of its labels;
  otherwise nothing is yielded. In particular, with \<^verbatim>\<open>LABELS\<close> empty every pull request
  is yielded, whatever its labels.
\<close>

theorem match_labels_or_bot_passes_iff:
  "fst (match_labels_or_bot_next cfg pr tr) =
     (if (is_bot (author pr) \<and> login (author pr) \<in> set (BOT_AUTHORS cfg)) \<or>
         LABELS cfg = [] \<or> set (LABELS cfg) \<subseteq> label_name ` set (labels pr)
      then Some pr else None) \<and>
   yields Match_labels_or_bot (snd (match_labels_or_bot_next cfg pr tr)) =
     yields Match_labels_or_bot tr @
       (case fst (match_labels_or_bot_next cfg pr tr) of None \<Rightarrow> [] | Some p \<Rightarrow> [p]) \<and>
   (LABELS cfg = [] \<longrightarrow> fst (match_labels_or_bot_next cfg pr tr) = Some pr)"
  by (simp add: match_labels_or_bot_next_def Let_def missing_nil del: set_map)

theorem match_labels_or_bot_passes_iff_witness:
  "fst (match_labels_or_bot_next (scenario_config True) pr5 []) = Some pr5 \<and>
   fst (match_labels_or_bot_next (scenario_config True) pr7 []) = None \<and>
   LABELS ((scenario_config True)\<lparr>LABELS := []\<rparr>) = [] \<and>
   fst (match_labels_or_bot_next ((scenario_config True)\<lparr>LABELS := []\<rparr>) pr7 []) = Some pr7"
  using match_labels_or_bot_passes_iff [of "scenario_config True" pr5 "[]"]
        match_labels_or_bot_passes_iff [of "scenario_config True" pr7 "[]"]
        match_labels_or_bot_passes_iff [of "(scenario_config True)\<lparr>LABELS := []\<rparr>" pr7 "[]"]
  by (simp add: scenario_config_def pr5_def pr7_def scenario_view_def)

text \<open>
  C2. For every pull request reaching the check-readiness stage whose checks command
  succeeds and decodes to the list \<open>cs\<close>: the stage yields the pull request (with the
  classification stored in it) if and only if the classification of \<open>cs\<close> has no failed,
  no pending and no cancelled check and at least \<^verbatim>\<open>MIN_PASSING_CHECKS\<close> passed ones.
  Otherwise nothing is yielded and one line is printed: "skipped tests are not passing"
  when a check is failed, pending or cancelled, "skipped passing but with too few checks"
  when only the count is too low. One pending check in \<open>cs\<close> excludes the pull request
  however many checks passed, and the two lines are never the same text.
\<close>

theorem check_prs_ready_passes_iff:
  assumes "sh L (checks_cmd (number pr)) False tr = (Inr out, t)"
      and "loads_checks L out = Inr cs"
  shows "check_prs_ready_next cfg L pr tr =
          (if failed (from_list cs) = [] \<and> pending (from_list cs) = [] \<and>
              cancel (from_list cs) = [] \<and>
              MIN_PASSING_CHECKS cfg \<le> int (length (passed (from_list cs)))
           then (Inr (Some (pr\<lparr>checks := Some (from_list cs)\<rparr>)),
                 t @ [Yield Check_prs_ready (pr\<lparr>checks := Some (from_list cs)\<rparr>)])
           else if failed (from_list cs) = [] \<and> pending (from_list cs) = [] \<and>
                   cancel (from_list cs) = []
           then (Inr None, t @ [Print (tab (''skipped passing but with too few checks ('' @
                                  str_int (int (length (passed (from_list cs)))) @ '')''))])
           else (Inr None, t @ [Print (tab ''skipped tests are not passing'')])) \<and>
         ((\<exists>c \<in> set cs. dict_bucket c = ''pending'') \<longrightarrow>
            check_prs_ready_next cfg L pr tr =
              (Inr None, t @ [Print (tab ''skipped tests are not passing'')])) \<and>
         (\<forall>n. tab ''skipped tests are not passing'' \<noteq>
              tab (''skipped passing but with too few checks ('' @ n @ '')''))"
proof -
  have pend: "(\<exists>c \<in> set cs. dict_bucket c = ''pending'') \<Longrightarrow> pending (from_list cs) \<noteq> []"
    by (auto simp: from_list_filter filter_empty_conv)
  show ?thesis
    using assms pend
    by (auto simp: check_prs_ready_next_def Let_def tab_def)
qed

theorem check_prs_ready_passes_iff_witness:
  "check_prs_ready_next (scenario_config True) scenario_lib pr5 [] =
     (Inr (Some (pr5\<lparr>checks := Some (from_list two_passing)\<rparr>)),
      [Run (checks_cmd 5), Yield Check_prs_ready (pr5\<lparr>checks := Some (from_list two_passing)\<rparr>)]) \<and>
   check_prs_ready_next ((scenario_config True)\<lparr>MIN_PASSING_CHECKS := 3\<rparr>) scenario_lib pr5 [] =
     (Inr None, [Run (checks_cmd 5),
                 Print (tab ''skipped passing but with too few checks (2)'')]) \<and>
   (\<exists>c \<in> set one_pending. dict_bucket c = ''pending'') \<and>
   check_prs_ready_next (scenario_config True)
       (scenario_lib\<lparr>loads_checks := \<lambda>s. Inr one_pending\<rparr>) pr5 [] =
     (Inr None, [Run (checks_cmd 5), Print (tab ''skipped tests are not passing'')])"
proof -
  have n: "number pr5 = 5" by (simp add: pr5_def)
  have s1: "sh scenario_lib (checks_cmd (number pr5)) False [] =
              (Inr (checks_cmd 5), [] @ [Run (checks_cmd 5)])"
    by (simp add: n sh_scenario strip_cmds)
  have l1: "loads_checks scenario_lib (checks_cmd 5) = Inr two_passing"
    by (simp add: scenario_lib_def)
  have s2: "sh (scenario_lib\<lparr>loads_checks := \<lambda>s. Inr one_pending\<rparr>) (checks_cmd (number pr5)) False [] =
              (Inr (checks_cmd 5), [] @ [Run (checks_cmd 5)])"
    by (simp add: n sh_scenario strip_cmds)
  have l2: "loads_checks (scenario_lib\<lparr>loads_checks := \<lambda>s. Inr one_pending\<rparr>) (checks_cmd 5) =
              Inr one_pending"
    by simp
  have p: "\<exists>c \<in> set one_pending. dict_bucket c = ''pending''"
    by (simp add: one_pending_def)
  show ?thesis
    using check_prs_ready_passes_iff [OF s1 l1, of "scenario_config True"]
          check_prs_ready_passes_iff [OF s1 l1, of "(scenario_config True)\<lparr>MIN_PASSING_CHECKS := 3\<rparr>"]
          check_prs_ready_passes_iff [OF s2 l2, of "scenario_config True"] p
    by (simp add: from_list_filter one_pending_def two_passing_def scenario_config_def str_int_2)
qed

section \<open>Claims about the whole run\<close>

text \<open>
  C8. Two open pull requests are listed, in either order: number 5 labelled
  \<^verbatim>\<open>automerge\<close> and number 7 without labels; both are viewed as \<^verbatim>\<open>MERGEABLE\<close> into
  \<^verbatim>\<open>main\<close>, and number 5 has two checks, both passing. The configuration requires the
  label \<^verbatim>\<open>automerge\<close>, has no bot authors and asks for one passing check. Every command
  the run issues succeeds (in a dry run the approval and the merge are not issued). Then
  the run is exactly the trace below: number 5 goes through the three stages and is
  approved and merged (in a dry run: both commands are printed), number 7 is viewed and
  dropped by the label stage, so it is never checked and never reaches the coordinator;
  the run ends with \<^verbatim>\<open>main\<close> claimed by number 5.
\<close>

theorem scenario_merges_5_and_drops_7:
  assumes cfg: "LABELS cfg = [''automerge'']" "BOT_AUTHORS cfg = []" "MIN_PASSING_CHECKS cfg = 1"
    and listing: "succeeds_with L list_cmd out_list" "loads_pr_list L out_list = Inr ds"
                 "ds = [d5, d7] \<or> ds = [d7, d5]"
    and d5: "listed_number d5 = 5" "map label_name (listed_labels d5) = [''automerge'']"
    and d7: "listed_number d7 = 7" "listed_labels d7 = []"
    and v5: "succeeds_with L (view_cmd 5) out5" "loads_pr_view L out5 = Inr v5"
            "view_mergeable v5 = ''MERGEABLE''" "view_baseRefName v5 = ''main''"
    and v7: "succeeds_with L (view_cmd 7) out7" "loads_pr_view L out7 = Inr v7"
            "view_mergeable v7 = ''MERGEABLE''" "view_baseRefName v7 = ''main''"
    and c5: "succeeds_with L (checks_cmd 5) outc" "loads_checks L outc = Inr cs"
            "map dict_bucket cs = [''pass'', ''pass'']"
    and msg: "str_format L (APPROVE_MSG cfg) 5 = Inr msg"
    and live: "DRY_RUN cfg \<or>
                 (succeeds_with L (review_cmd 5 msg) o1 \<and> succeeds_with L (merge_cmd 5) o2)"
    and p5: "p5 = \<lparr>number = 5, author = view_author v5, title = listed_title d5,
                    labels = listed_labels d5, mergeable = ''MERGEABLE'',
                    baseRefName = ''main'', checks = None\<rparr>"
    and p7: "p7 = \<lparr>number = 7, author = view_author v7, title = listed_title d7,
                    labels = [], mergeable = ''MERGEABLE'',
                    baseRefName = ''main'', checks = None\<rparr>"
    and r5: "ready5 = p5\<lparr>checks := Some (from_list cs)\<rparr>"
  shows "process_pull_requests cfg L =
           (Inr [''main'' \<mapsto> ready5],
            [Print (''LABELS='' @ repr_list L [''automerge'']),
             Run list_cmd,
             Run (view_cmd 5), Print (pr_line p5), Yield Get_pull_requests p5,
             Print (tab ''matches labels''), Yield Match_labels_or_bot p5,
             Print (tab ''is mergeable''), Yield Mergeable_prs p5,
             Run (checks_cmd 5), Yield Check_prs_ready ready5,
             Print (tab ''is ready to merging'')] @
            (if DRY_RUN cfg
             then [Print (tab (''Would run: '' @ review_cmd 5 msg)),
                   Print (tab (''Would run: '' @ merge_cmd 5))]
             else [Run (review_cmd 5 msg), Run (merge_cmd 5), Print (tab ''merged to main'')]) @
            [Run (view_cmd 7), Print (pr_line p7), Yield Get_pull_requests p7,
             Print (tab ''skipped not labeled with labels=automerge'')])"
  using assms by (rule scenario_trace)

theorem scenario_merges_5_and_drops_7_witness:
  "process_pull_requests (scenario_config False) scenario_lib =
     (Inr [''main'' \<mapsto> pr5\<lparr>checks := Some (from_list two_passing)\<rparr>],
      [Print (''LABELS=['' @ [CHR 0x27] @ ''automerge'' @ [CHR 0x27] @ '']''),
       Run list_cmd,
       Run (view_cmd 5), Print (pr_line pr5), Yield Get_pull_requests pr5,
       Print (tab ''matches labels''), Yield Match_labels_or_bot pr5,
       Print (tab ''is mergeable''), Yield Mergeable_prs pr5,
       Run (checks_cmd 5),
       Yield Check_prs_ready (pr5\<lparr>checks := Some (from_list two_passing)\<rparr>),
       Print (tab ''is ready to merging''),
       Run (review_cmd 5 approve_msg5), Run (merge_cmd 5), Print (tab ''merged to main''),
       Run (view_cmd 7), Print (pr_line pr7), Yield Get_pull_requests pr7,
       Print (tab ''skipped not labeled with labels=automerge'')]) \<and>
   process_pull_requests (scenario_config True) scenario_lib =
     (Inr [''main'' \<mapsto> pr5\<lparr>checks := Some (from_list two_passing)\<rparr>],
      [Print (''LABELS=['' @ [CHR 0x27] @ ''automerge'' @ [CHR 0x27] @ '']''),
       Run list_cmd,
       Run (view_cmd 5), Print (pr_line pr5), Yield Get_pull_requests pr5,
       Print (tab ''matches labels''), Yield Match_labels_or_bot pr5,
       Print (tab ''is mergeable''), Yield Mergeable_prs pr5,
       Run (checks_cmd 5),
       Yield Check_prs_ready (pr5\<lparr>checks := Some (from_list two_passing)\<rparr>),
       Print (tab ''is ready to merging''),
       Print (tab (''Would run: '' @ review_cmd 5 approve_msg5)),
       Print (tab (''Would run: '' @ merge_cmd 5)),
       Run (view_cmd 7), Print (pr_line pr7), Yield Get_pull_requests pr7,
       Print (tab ''skipped not labeled with labels=automerge'')])"
proof -
  have live: "DRY_RUN (scenario_config d) \<or>
        (succeeds_with scenario_lib (review_cmd 5 approve_msg5) (review_cmd 5 approve_msg5) \<and>
         succeeds_with scenario_lib (merge_cmd 5) (merge_cmd 5))" for d
    by (simp add: succeeds_scenario)
  have run: "process_pull_requests (scenario_config d) scenario_lib = 
           (Inr [''main'' \<mapsto> pr5\<lparr>checks := Some (from_list two_passing)\<rparr>],
            [Print (''LABELS='' @ repr_list scenario_lib [''automerge'']),
             Run list_cmd,
             Run (view_cmd 5), Print (pr_line pr5), Yield Get_pull_requests pr5,
             Print (tab ''matches labels''), Yield Match_labels_or_bot pr5,
             Print (tab ''is mergeable''), Yield Mergeable_prs pr5,
             Run (checks_cmd 5), Yield Check_prs_ready (pr5\<lparr>checks := Some (from_list two_passing)\<rparr>),
             Print (tab ''is ready to merging'')] @
            (if DRY_RUN (scenario_config d)
             then [Print (tab (''Would run: '' @ review_cmd 5 approve_msg5)),
                   Print (tab (''Would run: '' @ merge_cmd 5))]
             else [Run (review_cmd 5 approve_msg5), Run (merge_cmd 5), Print (tab ''merged to main'')]) @
            [Run (view_cmd 7), Print (pr_line pr7), Yield Get_pull_requests pr7,
             Print (tab ''skipped not labeled with labels=automerge'')])" for d
    by (rule scenario_merges_5_and_drops_7 [where ?d5.0 = listed5 and ?d7.0 = listed7
             and ?v5.0 = scenario_view and ?v7.0 = scenario_view and cs = two_passing
             and ds = "[listed7, listed5]", OF _ _ _ succeeds_scenario(1) scenario_data(1) _ _ _ _ _
             succeeds_scenario(2) scenario_data(2) _ _ succeeds_scenario(2) scenario_data(3) _ _
             succeeds_scenario(3) scenario_data(4) _ scenario_data(5) live])
       (simp_all add: scenario_config_def listed5_def listed7_def scenario_view_def two_passing_def
          pr5_def pr7_def)
  show ?thesis
    using run [of False] run [of True]
    by (simp add: scenario_config_def scenario_lib_def)
qed

section \<open>Claims about the command runner\<close>




section \<open>Claims about the merge coordinator\<close>



section \<open>Claims about dry runs and about the order of processing\<close>



text \<open>
  C9. Whatever \<^verbatim>\<open>DRY_RUN\<close> is, the listing, the view and the checks command are run
  (each adds itself to the commands executed, not a "Would run" line), and the fetching
  stages do not read the flag: with the flag changed they return the same result and
  trace. In a whole run with \<^verbatim>\<open>DRY_RUN\<close> true the commands executed are exactly the
  listing command, then one view for every pull request \<^verbatim>\<open>get_pull_requests\<close> yields
  and one checks command for every pull request that reaches \<^verbatim>\<open>check_prs_ready\<close>, in
  that order (and, when the run was ended by a view whose answer could not be used, that
  view).
\<close>

theorem dry_run_still_fetches:
  "executed (snd (get_pull_requests_begin L tr)) = executed tr @ [list_cmd] \<and>
   executed (snd (get_pull_requests_next L d tr)) = executed tr @ [view_cmd (listed_number d)] \<and>
   executed (snd (check_prs_ready_next cfg L pr tr)) = executed tr @ [checks_cmd (number pr)] \<and>
   check_prs_ready_next (cfg\<lparr>DRY_RUN := b\<rparr>) L pr tr = check_prs_ready_next cfg L pr tr \<and>
   next_ready (cfg\<lparr>DRY_RUN := b\<rparr>) L d tr = next_ready cfg L d tr \<and>
   (DRY_RUN cfg \<and> process_pull_requests cfg L = (res, t) \<longrightarrow>
      (\<exists>ext. executed t = list_cmd # fetches t @ ext \<and>
             (ext = [] \<or> (\<exists>n e. ext = [view_cmd n] \<and> res = Inl e))))"
proof -
  have a: "executed (snd (get_pull_requests_begin L tr)) = executed tr @ [list_cmd]"
    using get_begin_shape [of L tr "fst (get_pull_requests_begin L tr)"
            "snd (get_pull_requests_begin L tr)"] by simp
  have b: "executed (snd (get_pull_requests_next L d tr)) =
             executed tr @ [view_cmd (listed_number d)]"
    using get_next_shape [of L d tr "fst (get_pull_requests_next L d tr)"
            "snd (get_pull_requests_next L d tr)"] by auto
  have c: "executed (snd (check_prs_ready_next cfg L pr tr)) =
             executed tr @ [checks_cmd (number pr)]"
    using check_shape [of cfg L pr tr "fst (check_prs_ready_next cfg L pr tr)"
            "snd (check_prs_ready_next cfg L pr tr)"] by auto
  have d: "check_prs_ready_next (cfg\<lparr>DRY_RUN := b\<rparr>) L pr tr = check_prs_ready_next cfg L pr tr"
    for pr tr
    by (simp add: check_prs_ready_next_def Let_def split: prod.splits sum.splits)
  have e: "next_ready (cfg\<lparr>DRY_RUN := b\<rparr>) L d tr = next_ready cfg L d tr"
    by (simp add: next_ready_def d match_labels_or_bot_next_def Let_def
          split: prod.splits sum.splits option.splits)
  have f: "\<exists>ext. executed t = list_cmd # fetches t @ ext \<and>
             (ext = [] \<or> (\<exists>n e. ext = [view_cmd n] \<and> res = Inl e))"
    if "DRY_RUN cfg \<and> process_pull_requests cfg L = (res, t)"
    using that process_shape [of cfg L res t] by blast
  from a b c d e f show ?thesis by blast
qed

theorem dry_run_still_fetches_witness:
  "DRY_RUN (scenario_config True) \<and>
   executed (snd (process_pull_requests (scenario_config True) scenario_lib)) =
     [list_cmd, view_cmd 5, checks_cmd 5, view_cmd 7] \<and>
   fetches (snd (process_pull_requests (scenario_config True) scenario_lib)) =
     [view_cmd 5, checks_cmd 5, view_cmd 7] \<and>
   executed (snd (get_pull_requests_begin scenario_lib [])) = [list_cmd] \<and>
   executed (snd (get_pull_requests_next scenario_lib listed7 [])) = [view_cmd 7] \<and>
   executed (snd (check_prs_ready_next (scenario_config True) scenario_lib pr5 [])) = [checks_cmd 5]"
proof -
  define run where "run = process_pull_requests (scenario_config True) scenario_lib"
  have dry: "DRY_RUN (scenario_config True)" by (simp add: scenario_config_def)
  have n: "number pr5 = 5" "number pr7 = 7" "listed_number listed7 = 7"
    by (simp_all add: pr5_def pr7_def listed7_def)
  have fe: "fetches (snd run) = [view_cmd 5, checks_cmd 5, view_cmd 7]"
    unfolding run_def by (simp add: scenario_run n)
  have ok: "\<exists>m. fst run = Inr m"
    unfolding run_def by (simp add: scenario_run)
  note th = dry_run_still_fetches [of scenario_lib "[]" listed7 "scenario_config True" pr5 True
              "fst run" "snd run"]
  have "DRY_RUN (scenario_config True) \<and>
        process_pull_requests (scenario_config True) scenario_lib = (fst run, snd run)"
    using dry by (simp add: run_def)
  with th obtain ext where
    "executed (snd run) = list_cmd # fetches (snd run) @ ext"
    "ext = [] \<or> (\<exists>n e. ext = [view_cmd n] \<and> fst run = Inl e)"
    by blast
  with ok fe have 1: "executed (snd run) = [list_cmd, view_cmd 5, checks_cmd 5, view_cmd 7]"
    by auto
  from th have 2: "executed (snd (get_pull_requests_begin scenario_lib [])) = executed [] @ [list_cmd]"
    and 3: "executed (snd (get_pull_requests_next scenario_lib listed7 [])) =
              executed [] @ [view_cmd (listed_number listed7)]"
    and 4: "executed (snd (check_prs_ready_next (scenario_config True) scenario_lib pr5 [])) =
              executed [] @ [checks_cmd (number pr5)]"
    by blast+
  show ?thesis
    using dry 1 fe 2 3 4 unfolding run_def by (simp add: n)
qed

text \<open>
  C6. \<^verbatim>\<open>get_pull_requests\<close> goes through the listed pull requests sorted ascending by
  number (the same pull requests as listed). In a whole run, the pull requests yielded by
  \<^verbatim>\<open>get_pull_requests\<close> are in ascending order of number; each later stage yields a
  subsequence of what the stage before it yielded (the check stage: the same pull
  requests with their checks attached), so the ready sequence is in ascending order of
  number; and the merges and rebases of the run are those of the first-of-its-base rule
  applied to that ready sequence, so the lowest-numbered ready pull request of a base
  branch is the one merged.
\<close>

theorem ready_sequence_ascending:
  "(get_pull_requests_begin L tr = (Inr prs, t0) \<longrightarrow>
      sorted (map listed_number prs) \<and>
      (\<exists>out ds. loads_pr_list L out = Inr ds \<and> mset prs = mset ds)) \<and>
   (process_pull_requests cfg L = (res, t) \<longrightarrow>
      sorted (map number (yields Get_pull_requests t)) \<and>
      subseq (yields Match_labels_or_bot t) (yields Get_pull_requests t) \<and>
      subseq (yields Mergeable_prs t) (yields Match_labels_or_bot t) \<and>
      subseq (map (\<lambda>p. p\<lparr>checks := None\<rparr>) (yields Check_prs_ready t))
             (yields Mergeable_prs t) \<and>
      sorted (map number (yields Check_prs_ready t)) \<and>
      prefix (decisions t) (decision_cmds (yields Check_prs_ready t)) \<and>
      (\<forall>m. res = Inr m \<longrightarrow>
         decisions t = decision_cmds (yields Check_prs_ready t) \<and>
         (\<forall>b. m b = find (\<lambda>p. baseRefName p = b) (yields Check_prs_ready t))))"
proof -
  have one: "sorted (map listed_number prs) \<and>
             (\<exists>out ds. loads_pr_list L out = Inr ds \<and> mset prs = mset ds)"
    if "get_pull_requests_begin L tr = (Inr prs, t0)"
  proof -
    from get_begin_shape [OF that] obtain out ds where
      "loads_pr_list L out = Inr ds" "prs = sort_key listed_number ds" by auto
    then show ?thesis by auto
  qed
  have two: "sorted (map number (yields Get_pull_requests t)) \<and>
      subseq (yields Match_labels_or_bot t) (yields Get_pull_requests t) \<and>
      subseq (yields Mergeable_prs t) (yields Match_labels_or_bot t) \<and>
      subseq (map (\<lambda>p. p\<lparr>checks := None\<rparr>) (yields Check_prs_ready t))
             (yields Mergeable_prs t) \<and>
      sorted (map number (yields Check_prs_ready t)) \<and>
      prefix (decisions t) (decision_cmds (yields Check_prs_ready t)) \<and>
      (\<forall>m. res = Inr m \<longrightarrow>
         decisions t = decision_cmds (yields Check_prs_ready t) \<and>
         (\<forall>b. m b = find (\<lambda>p. baseRefName p = b) (yields Check_prs_ready t)))"
    if p: "process_pull_requests cfg L = (res, t)"
  proof -
    from process_shape [OF p] have
      g: "sorted (map number (yields Get_pull_requests t))"
      and s1: "subseq (yields Match_labels_or_bot t) (yields Get_pull_requests t)"
      and s2: "subseq (yields Mergeable_prs t) (yields Match_labels_or_bot t)"
      and s3: "subseq (map (\<lambda>p. p\<lparr>checks := None\<rparr>) (yields Check_prs_ready t))
                      (yields Mergeable_prs t)"
      by auto
    have "subseq (map (\<lambda>p. p\<lparr>checks := None\<rparr>) (yields Check_prs_ready t))
            (yields Get_pull_requests t)"
      using s3 s2 s1 by (meson subseq_order.trans)
    then have "subseq (map number (map (\<lambda>p. p\<lparr>checks := None\<rparr>) (yields Check_prs_ready t)))
            (map number (yields Get_pull_requests t))"
      by (rule subseq_map)
    then have "subseq (map number (yields Check_prs_ready t))
            (map number (yields Get_pull_requests t))"
      by (simp only: number_unchecked)
    then have r: "sorted (map number (yields Check_prs_ready t))"
      using g by (rule sorted_subseq)
    from g s1 s2 s3 r process_decisions [OF p] show ?thesis by blast
  qed
  from one two show ?thesis by blast
qed

theorem ready_sequence_ascending_witness:
  "get_pull_requests_begin scenario_lib [] = (Inr [listed5, listed7], [Run list_cmd]) \<and>
   loads_pr_list scenario_lib list_cmd = Inr [listed7, listed5] \<and>
   sorted (map listed_number [listed5, listed7]) \<and>
   yields Get_pull_requests (snd (process_pull_requests (scenario_config True) scenario_lib)) =
     [pr5, pr7] \<and>
   yields Check_prs_ready (snd (process_pull_requests (scenario_config True) scenario_lib)) =
     [pr5\<lparr>checks := Some (from_list two_passing)\<rparr>] \<and>
   sorted (map number
     (yields Get_pull_requests (snd (process_pull_requests (scenario_config True) scenario_lib)))) \<and>
   sorted (map number
     (yields Check_prs_ready (snd (process_pull_requests (scenario_config True) scenario_lib)))) \<and>
   decisions (snd (process_pull_requests (scenario_config True) scenario_lib)) =
     decision_cmds [pr5\<lparr>checks := Some (from_list two_passing)\<rparr>]"
proof -
  define run where "run = process_pull_requests (scenario_config True) scenario_lib"
  have b: "get_pull_requests_begin scenario_lib [] = (Inr [listed5, listed7], [Run list_cmd])"
    using eval_get_begin [OF succeeds_scenario(1) scenario_data(1), of "[]"]
    by (simp add: listed5_def listed7_def)
  have y: "yields Get_pull_requests (snd run) = [pr5, pr7]"
          "yields Check_prs_ready (snd run) = [pr5\<lparr>checks := Some (from_list two_passing)\<rparr>]"
    unfolding run_def by (simp_all add: scenario_run)
  have ok: "\<exists>m. fst run = Inr m"
    unfolding run_def by (simp add: scenario_run)
  note th = ready_sequence_ascending [of scenario_lib "[]" "[listed5, listed7]" "[Run list_cmd]"
              "scenario_config True" "fst run" "snd run"]
  have p: "process_pull_requests (scenario_config True) scenario_lib = (fst run, snd run)"
    by (simp add: run_def)
  from th b have 1: "sorted (map listed_number [listed5, listed7])" by blast
  from th p have 2: "sorted (map number (yields Get_pull_requests (snd run)))"
    and 3: "sorted (map number (yields Check_prs_ready (snd run)))"
    and 4: "\<forall>m. fst run = Inr m \<longrightarrow> decisions (snd run) = decision_cmds (yields Check_prs_ready (snd run))"
    by blast+
  from 4 ok y have 5: "decisions (snd run) =
                         decision_cmds [pr5\<lparr>checks := Some (from_list two_passing)\<rparr>]"
    by auto
  show ?thesis
    using b 1 2 3 5 y scenario_data(1) unfolding run_def by simp
qed

end
